theory Spec2Isabelle
  imports Main "HOL-Library.AList" "HOL-Library.Char_ord" "HOL-Library.List_Lexorder"
begin

section \<open>JavaScript strings\<close>

text \<open>
  The document store of the web package (\<^verbatim>\<open>stores/documentStore\<close>, found in the sources
  inside \<^verbatim>\<open>RightPane.tsx\<close>) works on JavaScript strings. They are modelled as
  \<^typ>\<open>string\<close>, one \<^typ>\<open>char\<close> per code unit; the model is exact for ASCII text.
  Every string method the store uses is written out below with the result JavaScript gives.
\<close>

definition LF :: char where
  "LF = CHR 0x0A"

definition CR :: char where
  "CR = CHR 0x0D"

text \<open>The characters matched by \<^verbatim>\<open>\s\<close> and removed by \<^verbatim>\<open>trim()\<close>: tab, line feed,
  vertical tab, form feed, carriage return, space.\<close>

definition isSpace :: "char \<Rightarrow> bool" where
  "isSpace c \<longleftrightarrow> c \<in> set [CHR 0x09, CHR 0x0A, CHR 0x0B, CHR 0x0C, CHR 0x0D, CHR 0x20]"

definition toLowerChar :: "char \<Rightarrow> char" where
  "toLowerChar c =
     (case map_of (zip ''ABCDEFGHIJKLMNOPQRSTUVWXYZ'' ''abcdefghijklmnopqrstuvwxyz'') c of
        Some l \<Rightarrow> l
      | None \<Rightarrow> c)"

definition toLowerCase :: "string \<Rightarrow> string" where
  "toLowerCase s = map toLowerChar s"

text \<open>\<^verbatim>\<open>s.startsWith(t)\<close>.\<close>

fun startsWith :: "string \<Rightarrow> string \<Rightarrow> bool" where
  "startsWith s [] = True"
| "startsWith [] (d # t) = False"
| "startsWith (c # s) (d # t) = (c = d \<and> startsWith s t)"

text \<open>\<^verbatim>\<open>s.indexOf(t)\<close>: the first index where \<open>t\<close> occurs, \<open>None\<close> for JavaScript's \<open>-1\<close>.\<close>

fun indexOf :: "string \<Rightarrow> string \<Rightarrow> nat option" where
  "indexOf [] t = (if t = [] then Some 0 else None)"
| "indexOf (c # s) t =
     (if startsWith (c # s) t then Some 0 else map_option Suc (indexOf s t))"

text \<open>\<^verbatim>\<open>s.lastIndexOf(t)\<close>: the last index where \<open>t\<close> occurs.\<close>

fun lastIndexOf :: "string \<Rightarrow> string \<Rightarrow> nat option" where
  "lastIndexOf [] t = (if t = [] then Some 0 else None)"
| "lastIndexOf (c # s) t =
     (case lastIndexOf s t of
        Some i \<Rightarrow> Some (Suc i)
      | None \<Rightarrow> if startsWith (c # s) t then Some 0 else None)"

text \<open>\<^verbatim>\<open>s.includes(t)\<close>.\<close>

definition includesStr :: "string \<Rightarrow> string \<Rightarrow> bool" where
  "includesStr s t \<longleftrightarrow> indexOf s t \<noteq> None"

text \<open>\<^verbatim>\<open>s.substring(a, b)\<close> for \<open>a \<le> b\<close>, the only way the store calls it, and
  \<^verbatim>\<open>s.substring(a)\<close>, which is \<^term>\<open>drop a s\<close>.\<close>

definition substring :: "string \<Rightarrow> nat \<Rightarrow> nat \<Rightarrow> string" where
  "substring s a b = take (b - a) (drop a s)"

text \<open>\<^verbatim>\<open>s.replace(pat, rep)\<close> with a string pattern: only the first occurrence is replaced.
  The store only passes the replacement \<^verbatim>\<open>""\<close>, which has no \<^verbatim>\<open>$\<close> pattern.\<close>

definition replaceFirst :: "string \<Rightarrow> string \<Rightarrow> string \<Rightarrow> string" where
  "replaceFirst s pat rep =
     (case indexOf s pat of
        None \<Rightarrow> s
      | Some i \<Rightarrow> take i s @ rep @ drop (i + length pat) s)"

text \<open>\<^verbatim>\<open>s.trim()\<close>.\<close>

definition trim :: "string \<Rightarrow> string" where
  "trim s = rev (dropWhile isSpace (rev (dropWhile isSpace s)))"

section \<open>Frontmatter\<close>

text \<open>
  \<^verbatim>\<open>parseFrontmatter\<close> matches the content against
  \<^verbatim>\<open>/^---\s*\r?\n([\s\S]*?)\r?\n---\s*\r?\n?/\<close>.
  The functions below follow the backtracking matcher through the pattern, piece by piece.

  \<open>closesAt s\<close>: the pieces \<^verbatim>\<open>\r?\n---\<close> at the head of \<open>s\<close>; the result is the number of
  characters consumed. \<^verbatim>\<open>\r?\<close> is greedy, but when a carriage return is present and no line
  feed follows it, the alternative without the carriage return fails as well, so at most
  one way succeeds.
\<close>

definition closesAt :: "string \<Rightarrow> nat option" where
  "closesAt s =
     (if startsWith s [CR, LF, CHR ''-'', CHR ''-'', CHR ''-''] then Some 5
      else if startsWith s [LF, CHR ''-'', CHR ''-'', CHR ''-''] then Some 4
      else None)"

text \<open>
  \<open>lazyBody s\<close>: the lazy group \<^verbatim>\<open>([\s\S]*?)\<close> followed by the rest of the pattern, at the
  head of \<open>s\<close>. The group grows one character at a time until \<^verbatim>\<open>\r?\n---\<close> matches behind it;
  then \<^verbatim>\<open>\s*\<close> takes every white-space character that follows, which leaves nothing for the
  final \<^verbatim>\<open>\r?\n?\<close>. The result is the captured group and the number of characters consumed.
\<close>

fun lazyBody :: "string \<Rightarrow> (string \<times> nat) option" where
  "lazyBody [] = None"
| "lazyBody (c # s) =
     (case closesAt (c # s) of
        Some n \<Rightarrow> Some ([], n + length (takeWhile isSpace (drop n (c # s))))
      | None \<Rightarrow>
          (case lazyBody s of
             Some (raw, m) \<Rightarrow> Some (c # raw, Suc m)
           | None \<Rightarrow> None))"

text \<open>
  \<open>afterSpaces s\<close>: the pieces \<^verbatim>\<open>\r?\n\<close> and everything behind them, at the head of \<open>s\<close>.
\<close>

definition afterSpaces :: "string \<Rightarrow> (string \<times> nat) option" where
  "afterSpaces s =
     (if startsWith s [CR, LF] then map_option (\<lambda>(raw, m). (raw, m + 2)) (lazyBody (drop 2 s))
      else if startsWith s [LF] then map_option (\<lambda>(raw, m). (raw, m + 1)) (lazyBody (drop 1 s))
      else None)"

text \<open>
  \<open>openSpaces s k\<close>: the greedy \<^verbatim>\<open>\s*\<close> behind the opening dashes has taken \<open>k\<close> characters of
  \<open>s\<close>; when the rest of the pattern fails behind them it gives one character back and
  tries again, down to none.
\<close>

fun openSpaces :: "string \<Rightarrow> nat \<Rightarrow> (string \<times> nat) option" where
  "openSpaces s 0 = afterSpaces s"
| "openSpaces s (Suc k) =
     (case afterSpaces (drop (Suc k) s) of
        Some (raw, m) \<Rightarrow> Some (raw, m + Suc k)
      | None \<Rightarrow> openSpaces s k)"

text \<open>The whole match: the captured group \<^verbatim>\<open>match[1]\<close> and the length of \<^verbatim>\<open>match[0]\<close>.\<close>

definition matchFrontmatter :: "string \<Rightarrow> (string \<times> nat) option" where
  "matchFrontmatter content =
     (if startsWith content ''---''
      then map_option (\<lambda>(raw, m). (raw, m + 3))
             (openSpaces (drop 3 content) (length (takeWhile isSpace (drop 3 content))))
      else None)"

text \<open>\<^verbatim>\<open>raw.split(/\r?\n/)\<close>.\<close>

fun splitLines :: "string \<Rightarrow> string list" where
  "splitLines [] = [[]]"
| "splitLines (c # s) =
     (if c = LF then [] # splitLines s
      else if c = CR \<and> startsWith s [LF] then [] # splitLines (drop 1 s)
      else (case splitLines s of
              l # ls \<Rightarrow> (c # l) # ls
            | [] \<Rightarrow> [[c]]))"

text \<open>The body of the \<^verbatim>\<open>for\<close> loop over the lines of the block.\<close>

definition frontmatterLine :: "(string \<rightharpoonup> string) \<Rightarrow> string \<Rightarrow> (string \<rightharpoonup> string)" where
  "frontmatterLine fm line =
     (let trimmed = trim line in
      if trimmed = [] \<or> startsWith trimmed ''#'' then fm
      else (case indexOf trimmed '':'' of
              None \<Rightarrow> fm
            | Some separatorIndex \<Rightarrow>
                (let key = trim (take separatorIndex trimmed);
                     val = trim (drop (separatorIndex + 1) trimmed)
                 in if key \<noteq> [] then fm(key \<mapsto> val) else fm)))"

record FrontmatterResult =
  res_body :: string
  res_frontmatter :: "string \<rightharpoonup> string"
  res_frontmatterRaw :: "string option"

definition parseFrontmatter :: "string \<Rightarrow> FrontmatterResult" where
  "parseFrontmatter content =
     (if \<not> startsWith content ''---''
      then \<lparr>res_body = content, res_frontmatter = Map.empty, res_frontmatterRaw = None\<rparr>
      else (case matchFrontmatter content of
              None \<Rightarrow> \<lparr>res_body = content, res_frontmatter = Map.empty, res_frontmatterRaw = None\<rparr>
            | Some (raw, n) \<Rightarrow>
                \<lparr>res_body = drop n content,
                 res_frontmatter = foldl frontmatterLine Map.empty (splitLines raw),
                 res_frontmatterRaw = Some raw\<rparr>))"

text \<open>\<^verbatim>\<open>!frontmatterRaw\<close> holds for \<^verbatim>\<open>null\<close> and for the empty string.\<close>

definition serializeDocumentContent :: "string option \<Rightarrow> string \<Rightarrow> string" where
  "serializeDocumentContent fmRaw b =
     (case fmRaw of
        None \<Rightarrow> b
      | Some raw \<Rightarrow>
          if raw = [] then b
          else (let normalizedBody = (if startsWith b [LF] then drop 1 b else b)
                in ''---'' @ [LF] @ raw @ [LF] @ ''---'' @ [LF] @ normalizedBody))"

section \<open>Documents with a frontmatter block\<close>





section \<open>Content locator\<close>

text \<open>
  A pattern is modelled by its matcher at the head of a string, giving the length of the
  match. \<^verbatim>\<open>regex.exec(content)\<close> of a global pattern starts at \<^verbatim>\<open>lastIndex\<close> and returns the
  leftmost match, here as the pair of \<^verbatim>\<open>match.index\<close> and the length of \<^verbatim>\<open>match[0]\<close>.
\<close>

fun searchFrom :: "(string \<Rightarrow> nat option) \<Rightarrow> string \<Rightarrow> nat \<Rightarrow> (nat \<times> nat) option" where
  "searchFrom m [] i = map_option (Pair i) (m [])"
| "searchFrom m (c # s) i =
     (case m (c # s) of
        Some n \<Rightarrow> Some (i, n)
      | None \<Rightarrow> searchFrom m s (Suc i))"

definition exec :: "(string \<Rightarrow> nat option) \<Rightarrow> string \<Rightarrow> nat \<Rightarrow> (nat \<times> nat) option" where
  "exec m content lastIndex = searchFrom m (drop lastIndex content) lastIndex"

text \<open>The letter \<^verbatim>\<open>h\<close> under the flag \<^verbatim>\<open>i\<close>, and the class \<^verbatim>\<open>[1-lim]\<close>.\<close>

definition isH :: "char \<Rightarrow> bool" where
  "isH c \<longleftrightarrow> c = CHR ''h'' \<or> c = CHR ''H''"

definition isLevel :: "char \<Rightarrow> char \<Rightarrow> bool" where
  "isLevel lim c \<longleftrightarrow>
     (of_char (CHR ''1'') :: nat) \<le> of_char c \<and> (of_char c :: nat) \<le> of_char lim"

text \<open>\<^verbatim>\<open></h[1-6]>\<close> with the flag \<^verbatim>\<open>i\<close>.\<close>

definition closingTagAt :: "string \<Rightarrow> nat option" where
  "closingTagAt s =
     (case s of
        a # b # c # d # e # r \<Rightarrow>
          if a = CHR ''<'' \<and> b = CHR ''/'' \<and> isH c \<and> isLevel (CHR ''6'') d \<and> e = CHR ''>''
          then Some 5 else None
      | _ \<Rightarrow> None)"

text \<open>
  \<^verbatim>\<open><h[1-lim][^>]*>\<close> with the flag \<^verbatim>\<open>i\<close>: the greedy \<^verbatim>\<open>[^>]*\<close> runs to the first \<^verbatim>\<open>>\<close>, and a
  shorter run would end before a character that is not \<^verbatim>\<open>>\<close>.
\<close>

definition openTagAt :: "char \<Rightarrow> string \<Rightarrow> nat option" where
  "openTagAt lim s =
     (case s of
        a # b # d # r \<Rightarrow>
          if a = CHR ''<'' \<and> isH b \<and> isLevel lim d
          then map_option (\<lambda>i. 3 + i + 1) (indexOf r ''>'')
          else None
      | _ \<Rightarrow> None)"

text \<open>
  \<^verbatim>\<open><h[1-6][^>]*>[^<]*<\/h[1-6]>\<close> with the flag \<^verbatim>\<open>i\<close>: behind the opening tag the greedy
  \<^verbatim>\<open>[^<]*\<close> runs to the first \<^verbatim>\<open><\<close>, where the closing tag has to start.
\<close>

definition headingAt :: "string \<Rightarrow> nat option" where
  "headingAt s =
     (case openTagAt (CHR ''6'') s of
        None \<Rightarrow> None
      | Some k \<Rightarrow>
          (case indexOf (drop k s) ''<'' of
             None \<Rightarrow> None
           | Some j \<Rightarrow>
               (case closingTagAt (drop (k + j) s) of
                  None \<Rightarrow> None
                | Some e \<Rightarrow> Some (k + j + e))))"

text \<open>A match of the heading pattern is not empty and lies inside the content, so the
  loops over the headings move forward.\<close>

lemma headingAt_positive: "headingAt s = Some k \<Longrightarrow> 0 < k"
  by (auto simp: headingAt_def closingTagAt_def openTagAt_def
           split: option.splits list.splits if_splits)

lemma searchFrom_headingAt_progress:
  "searchFrom headingAt s i = Some (idx, k) \<Longrightarrow> i \<le> idx \<and> idx < i + length s \<and> 0 < k"
proof (induction s arbitrary: i)
  case Nil
  then show ?case by (simp add: headingAt_def openTagAt_def)
next
  case (Cons c s)
  then show ?case by (fastforce split: option.splits dest: headingAt_positive)
qed

lemma exec_headingAt_progress:
  assumes "exec headingAt content lastIndex = Some (index, n)"
  shows "lastIndex < index + n \<and> lastIndex < length content"
proof -
  from assms have "searchFrom headingAt (drop lastIndex content) lastIndex = Some (index, n)"
    by (simp add: exec_def)
  from searchFrom_headingAt_progress [OF this]
  have "lastIndex \<le> index" "index < lastIndex + length (drop lastIndex content)" "0 < n"
    by simp_all
  then show ?thesis by simp
qed

text \<open>
  Both \<^verbatim>\<open>findInsertionPoint\<close> and \<^verbatim>\<open>findAndReplace\<close> run the loop
  \<^verbatim>\<open>while ((match = headingRegex.exec(content)) !== null)\<close> and leave it at the first match
  with \<^verbatim>\<open>match[0].toLowerCase().includes(searchTerm)\<close>. \<open>firstHeading\<close> is that loop from a
  given \<^verbatim>\<open>lastIndex\<close>; it returns \<^verbatim>\<open>match.index\<close> and the length of \<^verbatim>\<open>match[0]\<close> of the match
  the loop is left at, and \<open>None\<close> when the loop runs to its end.
\<close>

function firstHeading :: "string \<Rightarrow> string \<Rightarrow> nat \<Rightarrow> (nat \<times> nat) option" where
  "firstHeading content searchTerm lastIndex =
     (case exec headingAt content lastIndex of
        None \<Rightarrow> None
      | Some (index, n) \<Rightarrow>
          if includesStr (toLowerCase (substring content index (index + n))) searchTerm
          then Some (index, n)
          else firstHeading content searchTerm (index + n))"
  by pat_completeness auto
termination
proof (relation "measure (\<lambda>(content, searchTerm, lastIndex). length content - lastIndex)")
  show "wf (measure (\<lambda>(content, searchTerm, lastIndex). length content - lastIndex))"
    by simp
next
  fix content searchTerm :: string and lastIndex index n :: nat and x2
  assume "exec headingAt content lastIndex = Some x2" and "(index, n) = x2"
  then have "exec headingAt content lastIndex = Some (index, n)"
    by simp
  from exec_headingAt_progress [OF this]
  have "lastIndex < index + n" and "lastIndex < length content"
    by simp_all
  then show "((content, searchTerm, index + n), content, searchTerm, lastIndex)
          \<in> measure (\<lambda>(content, searchTerm, lastIndex). length content - lastIndex)"
    by (simp add: diff_less_mono2)
qed

declare firstHeading.simps [simp del]




text \<open>
  The end of the section that starts with the heading matched at \<open>index\<close> with length \<open>n\<close>:
  \<^verbatim>\<open>headingLevel\<close> is \<^verbatim>\<open>match[0].charAt(2)\<close>, the digit of the opening tag, and
  \<^verbatim>\<open>nextHeadingRegex\<close> is \<^verbatim>\<open><h[1-headingLevel][^>]*>\<close>, searched from the end of the match;
  without a next match the section runs to \<^verbatim>\<open>content.length\<close>.
\<close>

definition sectionEndOf :: "string \<Rightarrow> nat \<Rightarrow> nat \<Rightarrow> nat" where
  "sectionEndOf content index n =
     (let headingLevel = substring content index (index + n) ! 2 in
      case exec (openTagAt headingLevel) content (index + n) of
        Some (nextIndex, k) \<Rightarrow> nextIndex
      | None \<Rightarrow> length content)"

text \<open>The block \<^verbatim>\<open>if (lowerTarget.includes("after"))\<close>; \<open>None\<close> when control falls out of it.\<close>

definition afterRule :: "string \<Rightarrow> string \<Rightarrow> nat option" where
  "afterRule content lowerTarget =
     (if includesStr lowerTarget ''after''
      then (let searchTerm = trim (replaceFirst lowerTarget ''after'' []) in
            case firstHeading content searchTerm 0 of
              None \<Rightarrow> None
            | Some (index, n) \<Rightarrow> Some (sectionEndOf content index n))
      else None)"

text \<open>The block \<^verbatim>\<open>if (lowerTarget.includes("before"))\<close>.\<close>

definition beforeRule :: "string \<Rightarrow> string \<Rightarrow> nat option" where
  "beforeRule content lowerTarget =
     (if includesStr lowerTarget ''before''
      then (let searchTerm = trim (replaceFirst lowerTarget ''before'' []);
                lowerContent = toLowerCase content in
            case indexOf lowerContent searchTerm of
              None \<Rightarrow> None
            | Some index \<Rightarrow>
                (let beforeContent = substring content 0 index in
                 case lastIndexOf beforeContent ''<'' of
                   Some lastTagStart \<Rightarrow> Some lastTagStart
                 | None \<Rightarrow> Some index))
      else None)"

definition findInsertionPoint :: "string \<Rightarrow> string \<Rightarrow> nat" where
  "findInsertionPoint content target =
     (let lowerTarget = toLowerCase target in
      case afterRule content lowerTarget of
        Some p \<Rightarrow> p
      | None \<Rightarrow>
          (case beforeRule content lowerTarget of
             Some p \<Rightarrow> p
           | None \<Rightarrow>
               if includesStr lowerTarget ''end'' then length content
               else if includesStr lowerTarget ''beginning'' \<or> includesStr lowerTarget ''start''
               then (case exec closingTagAt content 0 of
                       Some (firstHeadingEnd, k) \<Rightarrow> firstHeadingEnd + 5
                     | None \<Rightarrow> 0)
               else length content))"

text \<open>The search term of \<^verbatim>\<open>findAndReplace\<close>.\<close>

definition cleanTarget :: "string \<Rightarrow> string" where
  "cleanTarget lowerTarget =
     trim (replaceFirst (replaceFirst (replaceFirst lowerTarget ''replace'' [])
                           ''delete'' []) ''the'' [])"

definition findAndReplace :: "string \<Rightarrow> string \<Rightarrow> string \<Rightarrow> string" where
  "findAndReplace content target newContent =
     (let lowerTarget = toLowerCase target in
      case (if includesStr lowerTarget ''replace'' \<or> includesStr lowerTarget ''delete''
            then firstHeading content (cleanTarget lowerTarget) 0
            else None) of
        Some (sectionStart, n) \<Rightarrow>
          (let sectionEnd = sectionEndOf content sectionStart n in
           substring content 0 sectionStart @ newContent @ drop sectionEnd content)
      | None \<Rightarrow> content @ [LF] @ newContent)"




section \<open>Documents and pending changes\<close>

record Document =
  doc_id :: string
  doc_path :: string
  doc_title :: string
  doc_content :: string
  doc_frontmatter :: "string \<rightharpoonup> string"
  doc_frontmatterRaw :: "string option"
  doc_updatedAt :: nat

datatype Operation = Insert | Replace | Delete | Create

datatype Status = Pending | Applied | Dismissed

record PendingChange =
  ch_id :: string
  ch_documentId :: string
  ch_operation :: Operation
  ch_target :: string
  ch_content :: string
  ch_description :: string
  ch_status :: Status

definition applyChangeToContent :: "string \<Rightarrow> PendingChange \<Rightarrow> string" where
  "applyChangeToContent c change =
     (case ch_operation change of
        Insert \<Rightarrow>
          (let insertPoint = findInsertionPoint c (ch_target change) in
           substring c 0 insertPoint @ [LF] @ ch_content change @ drop insertPoint c)
      | Replace \<Rightarrow> findAndReplace c (ch_target change) (ch_content change)
      | Delete \<Rightarrow> findAndReplace c (ch_target change) []
      | Create \<Rightarrow> c @ [LF] @ ch_content change)"

section \<open>Document store\<close>

text \<open>
  The store holds \<^verbatim>\<open>documents: Record<string, Document>\<close>. A JavaScript object lists its
  string keys in the order of their first insertion, and \<^verbatim>\<open>deleteDocument\<close> reads
  \<^verbatim>\<open>Object.keys(rest)[0]\<close>, so the record is modelled as an association list:
  \<^term>\<open>map_of\<close> reads a key, \<^const>\<open>AList.update\<close> writes one (in place when the key is
  present, at the end otherwise) and \<^const>\<open>AList.delete\<close> is \<^verbatim>\<open>delete\<close>.
  Document ids have the form \<^verbatim>\<open>doc-...\<close>; no key is the decimal form of an integer, which
  JavaScript would list first.
\<close>

record DocumentStore =
  documents :: "(string \<times> Document) list"
  currentDocumentId :: "string option"
  lastCreatedDocumentId :: "string option"
  pendingChanges :: "PendingChange list"
  isLoading :: bool
  isInitialized :: bool

text \<open>
  What an action reads from outside the store: \<open>env_now\<close> is \<^verbatim>\<open>Date.now()\<close>, and \<open>env_newId\<close>
  is the identifier \<^verbatim>\<open>doc-${Date.now()}-${Math.random().toString(36).slice(2, 8)}\<close> that
  \<^verbatim>\<open>createDocument\<close> builds.
\<close>

record Env =
  env_now :: nat
  env_newId :: string

text \<open>
  The actions \<^verbatim>\<open>updateDocument\<close>, \<^verbatim>\<open>createDocument\<close> and \<^verbatim>\<open>deleteDocument\<close> are \<^verbatim>\<open>async\<close>:
  each changes the store with \<^verbatim>\<open>set\<close> before its first \<^verbatim>\<open>await\<close>, and behind the \<^verbatim>\<open>await\<close> only
  writes to the database, whose failure is caught and logged. The model is the change of
  the store, which has happened when the call returns its promise.
\<close>

text \<open>
  \<^verbatim>\<open>updateDocument\<close>. When no document has the id, \<^verbatim>\<open>{...state.documents[documentId], ...}\<close>
  spreads \<^verbatim>\<open>undefined\<close>, and the stored object has no \<^verbatim>\<open>id\<close>, \<^verbatim>\<open>path\<close> or \<^verbatim>\<open>title\<close>: these fields
  are \<^term>\<open>undefined\<close> in the model as well. \<^verbatim>\<open>applyChange\<close> only calls the action with the id
  of a document of the store.
\<close>

definition updateDocument :: "nat \<Rightarrow> string \<Rightarrow> string \<Rightarrow> DocumentStore \<Rightarrow> DocumentStore" where
  "updateDocument t docId c s =
     (let existing = map_of (documents s) docId;
          parsed = parseFrontmatter c;
          hasNewFrontmatter = (res_frontmatterRaw parsed \<noteq> None);
          fmRaw = (case res_frontmatterRaw parsed of
                     Some raw \<Rightarrow> Some raw
                   | None \<Rightarrow> (case existing of Some d \<Rightarrow> doc_frontmatterRaw d | None \<Rightarrow> None));
          fm = (if hasNewFrontmatter \<and> res_frontmatterRaw parsed \<noteq> Some []
                then res_frontmatter parsed
                else (case existing of Some d \<Rightarrow> doc_frontmatter d | None \<Rightarrow> Map.empty));
          b = (if hasNewFrontmatter then res_body parsed else c);
          old = (case existing of
                   Some d \<Rightarrow> d
                 | None \<Rightarrow> \<lparr>doc_id = undefined, doc_path = undefined, doc_title = undefined,
                            doc_content = b, doc_frontmatter = fm, doc_frontmatterRaw = fmRaw,
                            doc_updatedAt = t\<rparr>)
      in s\<lparr>documents :=
             AList.update docId
               (old\<lparr>doc_content := b, doc_frontmatter := fm, doc_frontmatterRaw := fmRaw,
                    doc_updatedAt := t\<rparr>)
               (documents s)\<rparr>)"

text \<open>The string handed to \<^verbatim>\<open>turso.updateDocument\<close> by the same call.\<close>

definition updateDocument_serialized :: "string \<Rightarrow> string \<Rightarrow> DocumentStore \<Rightarrow> string" where
  "updateDocument_serialized docId c s =
     (let existing = map_of (documents s) docId;
          parsed = parseFrontmatter c;
          hasNewFrontmatter = (res_frontmatterRaw parsed \<noteq> None);
          fmRaw = (case res_frontmatterRaw parsed of
                     Some raw \<Rightarrow> Some raw
                   | None \<Rightarrow> (case existing of Some d \<Rightarrow> doc_frontmatterRaw d | None \<Rightarrow> None));
          b = (if hasNewFrontmatter then res_body parsed else c)
      in serializeDocumentContent fmRaw b)"

text \<open>The class \<^verbatim>\<open>[a-z0-9]\<close>.\<close>

definition isSlugChar :: "char \<Rightarrow> bool" where
  "isSlugChar c \<longleftrightarrow> c \<in> set ''abcdefghijklmnopqrstuvwxyz0123456789''"

text \<open>\<^verbatim>\<open>.replace(/[^a-z0-9]+/g, "-")\<close>: every maximal run of other characters becomes one hyphen.\<close>

function hyphenate :: "string \<Rightarrow> string" where
  "hyphenate [] = []"
| "hyphenate (c # s) =
     (if isSlugChar c then c # hyphenate s
      else CHR ''-'' # hyphenate (dropWhile (\<lambda>x. \<not> isSlugChar x) s))"
  by pat_completeness auto
termination
  by (relation "measure length") (auto simp: length_dropWhile_le less_Suc_eq_le)

text \<open>\<^verbatim>\<open>.replace(/(^-|-$)/g, "")\<close>: a hyphen at the start goes, then a hyphen at the end.\<close>

definition stripHyphens :: "string \<Rightarrow> string" where
  "stripHyphens s =
     (let s1 = (if startsWith s ''-'' then drop 1 s else s)
      in if s1 \<noteq> [] \<and> last s1 = CHR ''-'' then butlast s1 else s1)"

definition slugify :: "string \<Rightarrow> string" where
  "slugify t = stripHyphens (hyphenate (toLowerCase t))"

definition createDocument :: "Env \<Rightarrow> string \<Rightarrow> string \<Rightarrow> DocumentStore \<Rightarrow> DocumentStore" where
  "createDocument env ttl c s =
     (let ident = env_newId env;
          slug = slugify ttl;
          pth = ''/docs/'' @ slug @ ''.md'';
          parsed = parseFrontmatter c;
          newDoc = \<lparr>doc_id = ident, doc_path = pth, doc_title = ttl, doc_content = res_body parsed,
                    doc_frontmatter = res_frontmatter parsed,
                    doc_frontmatterRaw = res_frontmatterRaw parsed,
                    doc_updatedAt = env_now env\<rparr>
      in s\<lparr>documents := AList.update ident newDoc (documents s),
           currentDocumentId := Some ident,
           lastCreatedDocumentId := Some ident\<rparr>)"

text \<open>\<^verbatim>\<open>Object.keys(rest)[0] || null\<close>: the first key, and \<^verbatim>\<open>null\<close> when there is none or when it
  is the empty string.\<close>

definition firstKey :: "(string \<times> Document) list \<Rightarrow> string option" where
  "firstKey rest =
     (case rest of
        [] \<Rightarrow> None
      | (k, d) # r \<Rightarrow> if k = [] then None else Some k)"

definition deleteDocument :: "string \<Rightarrow> DocumentStore \<Rightarrow> DocumentStore" where
  "deleteDocument docId s =
     (let rest = AList.delete docId (documents s)
      in s\<lparr>documents := rest,
           currentDocumentId :=
             (if currentDocumentId s = Some docId then firstKey rest
              else currentDocumentId s)\<rparr>)"

text \<open>Decimal digits of a number, as \<^verbatim>\<open>${index}\<close> and \<^verbatim>\<open>${suffix}\<close> print them.\<close>

definition digitChar :: "nat \<Rightarrow> char" where
  "digitChar d = ''0123456789'' ! d"

function showNat :: "nat \<Rightarrow> string" where
  "showNat n = (if n < 10 then [digitChar n] else showNat (n div 10) @ [digitChar (n mod 10)])"
  by pat_completeness auto
termination
  by (relation "measure id") auto

text \<open>\<^verbatim>\<open>setPendingChanges\<close>; the changes come without \<^verbatim>\<open>id\<close> and \<^verbatim>\<open>status\<close>, which are set here.\<close>

definition setPendingChanges :: "nat \<Rightarrow> PendingChange list \<Rightarrow> DocumentStore \<Rightarrow> DocumentStore" where
  "setPendingChanges t changes s =
     s\<lparr>pendingChanges :=
         map (\<lambda>(change, index).
                change\<lparr>ch_id := ''change-'' @ showNat t @ ''-'' @ showNat index,
                       ch_status := Pending\<rparr>)
             (zip changes [0 ..< length changes])\<rparr>"

definition markApplied :: "string \<Rightarrow> PendingChange list \<Rightarrow> PendingChange list" where
  "markApplied changeId cs =
     map (\<lambda>c. if ch_id c = changeId then c\<lparr>ch_status := Applied\<rparr> else c) cs"

definition applyChange :: "Env \<Rightarrow> string \<Rightarrow> DocumentStore \<Rightarrow> DocumentStore" where
  "applyChange env changeId s =
     (case find (\<lambda>c. ch_id c = changeId) (pendingChanges s) of
        None \<Rightarrow> s
      | Some change \<Rightarrow>
          if ch_status change \<noteq> Pending then s
          else
            (let s1 =
               (if ch_operation change = Create \<or> ch_documentId change = ''new''
                then createDocument env (ch_target change) (ch_content change) s
                else if ch_operation change = Delete
                then deleteDocument (ch_documentId change) s
                else (case map_of (documents s) (ch_documentId change) of
                        Some doc \<Rightarrow>
                          updateDocument (env_now env) (ch_documentId change)
                            (applyChangeToContent (doc_content doc) change) s
                      | None \<Rightarrow> s))
             in s1\<lparr>pendingChanges := markApplied changeId (pendingChanges s1)\<rparr>))"

definition dismissChange :: "string \<Rightarrow> DocumentStore \<Rightarrow> DocumentStore" where
  "dismissChange changeId s =
     s\<lparr>pendingChanges :=
         map (\<lambda>c. if ch_id c = changeId then c\<lparr>ch_status := Dismissed\<rparr> else c)
           (pendingChanges s)\<rparr>"

text \<open>
  \<^verbatim>\<open>applyAllChanges\<close> filters the queue once and calls \<^verbatim>\<open>get().applyChange(c.id)\<close> for each
  element, in the order of the queue. \<open>clock i\<close> is what the \<open>i\<close>-th call reads from outside.
\<close>

fun applyEach :: "(nat \<Rightarrow> Env) \<Rightarrow> nat \<Rightarrow> string list \<Rightarrow> DocumentStore \<Rightarrow> DocumentStore" where
  "applyEach clock i [] s = s"
| "applyEach clock i (changeId # ids) s =
     applyEach clock (Suc i) ids (applyChange (clock i) changeId s)"

definition applyAllChanges :: "(nat \<Rightarrow> Env) \<Rightarrow> DocumentStore \<Rightarrow> DocumentStore" where
  "applyAllChanges clock s =
     applyEach clock 0 (map ch_id (filter (\<lambda>c. ch_status c = Pending) (pendingChanges s))) s"

definition dismissAllChanges :: "DocumentStore \<Rightarrow> DocumentStore" where
  "dismissAllChanges s =
     s\<lparr>pendingChanges :=
         map (\<lambda>c. if ch_status c = Pending then c\<lparr>ch_status := Dismissed\<rparr> else c)
           (pendingChanges s)\<rparr>"

definition getChangesForDocument :: "string \<Rightarrow> DocumentStore \<Rightarrow> PendingChange list" where
  "getChangesForDocument docId s =
     filter (\<lambda>c. ch_documentId c = docId \<and> ch_status c = Pending) (pendingChanges s)"

definition hasPendingChanges :: "DocumentStore \<Rightarrow> bool" where
  "hasPendingChanges s \<longleftrightarrow> (\<exists>c \<in> set (pendingChanges s). ch_status c = Pending)"

section \<open>New untitled documents\<close>

text \<open>Different numbers have different decimal forms, so the titles \<^verbatim>\<open>Untitled 2\<close>,
  \<^verbatim>\<open>Untitled 3\<close>, ... are all different and the loop below comes to an end.\<close>

declare showNat.simps [simp del]

lemma showNat_nonempty: "showNat n \<noteq> []"
  by (subst showNat.simps) simp

lemma digitChar_inj: "a < 10 \<Longrightarrow> b < 10 \<Longrightarrow> digitChar a = digitChar b \<Longrightarrow> a = b"
proof -
  assume a: "a < 10" and b: "b < 10" and e: "digitChar a = digitChar b"
  have d: "distinct ''0123456789''" by simp
  from a b have "a < length ''0123456789''" "b < length ''0123456789''"
    by simp_all
  with d e show "a = b"
    unfolding digitChar_def by (simp only: nth_eq_iff_index_eq)
qed

lemma showNat_inj: "showNat a = showNat b \<Longrightarrow> a = b"
proof (induction a arbitrary: b rule: showNat.induct)
  case (1 n)
  show ?case
  proof (cases "n < 10")
    case True
    then have n: "showNat n = [digitChar n]"
      by (subst showNat.simps) simp
    show ?thesis
    proof (cases "b < 10")
      case b: True
      then have "showNat b = [digitChar b]"
        by (subst showNat.simps) simp
      with n "1.prems" have "digitChar n = digitChar b" by simp
      with True b show ?thesis by (rule digitChar_inj)
    next
      case False
      then have "showNat b = showNat (b div 10) @ [digitChar (b mod 10)]"
        by (subst showNat.simps) simp
      with n "1.prems" showNat_nonempty [of "b div 10"] show ?thesis
        by (cases "showNat (b div 10)") simp_all
    qed
  next
    case False
    then have n: "showNat n = showNat (n div 10) @ [digitChar (n mod 10)]"
      by (subst showNat.simps) simp
    show ?thesis
    proof (cases "b < 10")
      case True
      then have "showNat b = [digitChar b]"
        by (subst showNat.simps) simp
      with n "1.prems" showNat_nonempty [of "n div 10"] show ?thesis
        by (cases "showNat (n div 10)") simp_all
    next
      case b: False
      then have "showNat b = showNat (b div 10) @ [digitChar (b mod 10)]"
        by (subst showNat.simps) simp
      with n "1.prems" have e: "showNat (n div 10) = showNat (b div 10)"
        and d: "digitChar (n mod 10) = digitChar (b mod 10)"
        by simp_all
      from "1.IH" [OF False e] have q: "n div 10 = b div 10" .
      from d have r: "n mod 10 = b mod 10"
        by (rule digitChar_inj [rotated 2]) simp_all
      from q r show ?thesis
        by (metis div_mult_mod_eq)
    qed
  qed
qed

lemma finite_untitled:
  "finite {k. suffix \<le> k \<and> ''Untitled '' @ showNat k \<in> set existingTitles}"
proof -
  have "inj (\<lambda>k. ''Untitled '' @ showNat k)"
    by (rule injI) (simp add: showNat_inj)
  then have "finite ((\<lambda>k. ''Untitled '' @ showNat k) -` set existingTitles)"
    by (simp add: finite_vimageI)
  then show ?thesis
    by (rule rev_finite_subset) auto
qed

text \<open>
  \<^verbatim>\<open>handleNewDocument\<close> of the layout component: the loop
  \<^verbatim>\<open>while (existingTitles.has(title)) { title = `${baseTitle} ${suffix}`; suffix += 1; }\<close>
  with the title and the suffix as its state. \<^verbatim>\<open>existingTitles\<close> is the set of the titles of
  the documents, here the list of them.
\<close>

function nextTitle :: "string list \<Rightarrow> string \<Rightarrow> nat \<Rightarrow> string" where
  "nextTitle existingTitles ttl suffix =
     (if ttl \<in> set existingTitles
      then nextTitle existingTitles (''Untitled '' @ showNat suffix) (suffix + 1)
      else ttl)"
  by pat_completeness auto
termination
proof (relation "measure (\<lambda>(existingTitles, ttl, suffix).
         card {k. suffix \<le> k \<and> ''Untitled '' @ showNat k \<in> set existingTitles}
         + (if ttl \<in> set existingTitles then 1 else 0))")
  show "wf (measure (\<lambda>(existingTitles, ttl, suffix).
         card {k. suffix \<le> k \<and> ''Untitled '' @ showNat k \<in> set existingTitles}
         + (if ttl \<in> set existingTitles then 1 else 0)))"
    by simp
next
  fix existingTitles :: "string list" and ttl :: string and suffix :: nat
  assume t: "ttl \<in> set existingTitles"
  let ?S = "\<lambda>n. {k. n \<le> k \<and> ''Untitled '' @ showNat k \<in> set existingTitles}"
  have "card (?S (suffix + 1))
          + (if ''Untitled '' @ showNat suffix \<in> set existingTitles then 1 else 0)
        = card (?S suffix)"
  proof (cases "''Untitled '' @ showNat suffix \<in> set existingTitles")
    case True
    then have "?S suffix = insert suffix (?S (suffix + 1))"
      by (auto simp: le_Suc_eq)
    moreover have "suffix \<notin> ?S (suffix + 1)"
      by simp
    ultimately show ?thesis
      using True finite_untitled [of "suffix + 1" existingTitles] by simp
  next
    case False
    then have "?S suffix = ?S (suffix + 1)"
      by (auto simp: Suc_le_eq le_less)
    with False show ?thesis by simp
  qed
  with t show "((existingTitles, ''Untitled '' @ showNat suffix, suffix + 1),
                existingTitles, ttl, suffix)
          \<in> measure (\<lambda>(existingTitles, ttl, suffix).
               card {k. suffix \<le> k \<and> ''Untitled '' @ showNat k \<in> set existingTitles}
               + (if ttl \<in> set existingTitles then 1 else 0))"
    by simp
qed

declare nextTitle.simps [simp del]


section \<open>Entities\<close>

text \<open>
  \<^verbatim>\<open>lib/entities\<close> keeps the entities in the table \<^verbatim>\<open>entities\<close> of the database. A row is
  modelled by the \<^verbatim>\<open>Entity\<close> that the functions build from it; the column \<^verbatim>\<open>confidence\<close> is
  written once and never read. \<^verbatim>\<open>properties\<close> is a \<^verbatim>\<open>Record<string, unknown>\<close>, stored as JSON
  text: a map from keys to values of any type \<open>'v\<close>.
\<close>

datatype EntityType = Person | Organization | Project | Event

record 'v Entity =
  ent_id :: string
  ent_type :: EntityType
  ent_name :: string
  ent_properties :: "string \<rightharpoonup> 'v"
  ent_created_at :: nat
  ent_updated_at :: nat

text \<open>The argument \<^verbatim>\<open>updates: { name?: string; properties?: Record<string, unknown> }\<close>;
  \<open>None\<close> is a key that is not given.\<close>

record 'v EntityUpdates =
  upd_name :: "string option"
  upd_properties :: "(string \<rightharpoonup> 'v) option"

datatype error = EntityNotFound string

text \<open>\<^verbatim>\<open>SELECT * FROM entities WHERE id = ?\<close>, then \<^verbatim>\<open>result.rows[0]\<close>.\<close>

definition getEntity :: "string \<Rightarrow> 'v Entity list \<Rightarrow> 'v Entity option" where
  "getEntity ident rows = find (\<lambda>r. ent_id r = ident) rows"

text \<open>\<^verbatim>\<open>updateEntity\<close> of \<^verbatim>\<open>lib/entities\<close>; \<open>t\<close> is \<^verbatim>\<open>Date.now()\<close>. The result is the table after
  \<^verbatim>\<open>UPDATE entities SET name = ?, properties = ?, updated_at = ? WHERE id = ?\<close>.\<close>

definition updateEntity ::
    "nat \<Rightarrow> string \<Rightarrow> 'v EntityUpdates \<Rightarrow> 'v Entity list \<Rightarrow> error + 'v Entity list" where
  "updateEntity t ident updates rows =
     (case getEntity ident rows of
        None \<Rightarrow> Inl (EntityNotFound ident)
      | Some entity \<Rightarrow>
          (let newName = (case upd_name updates of Some n \<Rightarrow> n | None \<Rightarrow> ent_name entity);
               newProperties = (case upd_properties updates of
                                  Some ps \<Rightarrow> ps
                                | None \<Rightarrow> ent_properties entity)
           in Inr (map (\<lambda>r. if ent_id r = ident
                             then r\<lparr>ent_name := newName, ent_properties := newProperties,
                                    ent_updated_at := t\<rparr>
                             else r) rows)))"

text \<open>
  The entity store of the web package caches the entities in \<^verbatim>\<open>entities: Record<string, Entity>\<close>.
  Its \<^verbatim>\<open>updateEntity\<close> awaits the function above, which may throw, and then stores
  \<^verbatim>\<open>{...state.entities[entityId], ...updates, updated_at: Date.now()}\<close>. When the cache has no
  such entity the stored object has only the fields of \<^verbatim>\<open>updates\<close> and \<^verbatim>\<open>updated_at\<close>; the other
  fields are \<^term>\<open>undefined\<close>.
\<close>

record 'v EntityStore =
  entities :: "(string \<times> 'v Entity) list"
  currentEntityId :: "string option"

definition spreadUpdates :: "'v Entity option \<Rightarrow> 'v EntityUpdates \<Rightarrow> nat \<Rightarrow> 'v Entity" where
  "spreadUpdates old updates t =
     (let base = (case old of
                    Some e \<Rightarrow> e
                  | None \<Rightarrow> \<lparr>ent_id = undefined, ent_type = undefined, ent_name = undefined,
                             ent_properties = undefined, ent_created_at = undefined,
                             ent_updated_at = t\<rparr>)
      in base\<lparr>ent_name := (case upd_name updates of Some n \<Rightarrow> n | None \<Rightarrow> ent_name base),
              ent_properties := (case upd_properties updates of
                                   Some ps \<Rightarrow> ps
                                 | None \<Rightarrow> ent_properties base),
              ent_updated_at := t\<rparr>)"

definition store_updateEntity ::
    "nat \<Rightarrow> nat \<Rightarrow> string \<Rightarrow> 'v EntityUpdates \<Rightarrow> 'v Entity list \<times> 'v EntityStore
       \<Rightarrow> error + 'v Entity list \<times> 'v EntityStore" where
  "store_updateEntity tDb tStore entityId updates st =
     (case updateEntity tDb entityId updates (fst st) of
        Inl e \<Rightarrow> Inl e
      | Inr rows \<Rightarrow>
          Inr (rows,
               (snd st)\<lparr>entities :=
                  AList.update entityId
                    (spreadUpdates (map_of (entities (snd st)) entityId) updates tStore)
                    (entities (snd st))\<rparr>))"

text \<open>
  \<^verbatim>\<open>name LIKE ?\<close> as the database evaluates it: \<^verbatim>\<open>%\<close> stands for any run of characters, \<^verbatim>\<open>_\<close>
  for any one character, and letters match without regard to case.
\<close>

fun likeMatch :: "string \<Rightarrow> string \<Rightarrow> bool" where
  "likeMatch [] s = (s = [])"
| "likeMatch (p # ps) [] = (p = CHR ''%'' \<and> likeMatch ps [])"
| "likeMatch (p # ps) (c # cs) =
     (if p = CHR ''%'' then likeMatch ps (c # cs) \<or> likeMatch (p # ps) cs
      else (p = CHR ''_'' \<or> toLowerChar p = toLowerChar c) \<and> likeMatch ps cs)"

text \<open>
  \<^verbatim>\<open>searchEntities\<close>:
  \<^verbatim>\<open>SELECT * FROM entities WHERE name LIKE ? ORDER BY name LIMIT 20\<close> with the argument
  \<^verbatim>\<open>`%${query}%`\<close>. Rows with the same name keep the order of the table.
\<close>

definition searchEntities :: "string \<Rightarrow> 'v Entity list \<Rightarrow> 'v Entity list" where
  "searchEntities query rows =
     take 20 (sort_key ent_name
                (filter (\<lambda>r. likeMatch (''%'' @ query @ ''%'') (ent_name r)) rows))"

section \<open>Example data\<close>

definition exEnv :: Env where
  "exEnv = \<lparr>env_now = 1000, env_newId = ''doc-1000-k3x9qa''\<rparr>"

definition exDoc :: Document where
  "exDoc = \<lparr>doc_id = ''doc-1'', doc_path = ''/docs/notes.md'', doc_title = ''Notes'',
            doc_content = ''<h1>Notes</h1>'', doc_frontmatter = Map.empty,
            doc_frontmatterRaw = None, doc_updatedAt = 1\<rparr>"

definition exChange :: "string \<Rightarrow> Operation \<Rightarrow> string \<Rightarrow> string \<Rightarrow> PendingChange" where
  "exChange docId op tgt c =
     \<lparr>ch_id = ''change-7-0'', ch_documentId = docId, ch_operation = op, ch_target = tgt,
      ch_content = c, ch_description = ''proposed by the assistant'', ch_status = Pending\<rparr>"

definition exStore :: "PendingChange list \<Rightarrow> DocumentStore" where
  "exStore cs = \<lparr>documents = [(''doc-1'', exDoc)], currentDocumentId = Some ''doc-1'',
                 lastCreatedDocumentId = None, pendingChanges = cs,
                 isLoading = False, isInitialized = True\<rparr>"


text \<open>A change whose operation is \<^verbatim>\<open>delete\<close> and whose document id is the sentinel.\<close>

definition sentinelDelete :: PendingChange where
  "sentinelDelete = exChange ''new'' Delete ''Plan'' ''<h1>Plan</h1>''"

definition appendA :: PendingChange where
  "appendA = exChange ''doc-1'' Insert ''at the end'' ''<p>A</p>''"

definition exEntity :: "string \<Rightarrow> string \<Rightarrow> nat Entity" where
  "exEntity ident n =
     \<lparr>ent_id = ident, ent_type = Person, ent_name = n,
      ent_properties = [''role'' \<mapsto> 1, ''team'' \<mapsto> 2],
      ent_created_at = 10, ent_updated_at = 10\<rparr>"

text \<open>An update that names one property, and a store that caches the example entity.\<close>

definition exUpdate :: "nat EntityUpdates" where
  "exUpdate = \<lparr>upd_name = None, upd_properties = Some [''role'' \<mapsto> 3]\<rparr>"

definition exEntityStore :: "nat EntityStore" where
  "exEntityStore =
     \<lparr>entities = [(''person-1'', exEntity ''person-1'' ''Ana'')], currentEntityId = None\<rparr>"



text \<open>Two changes that insert \<^verbatim>\<open>A\<close> and then \<^verbatim>\<open>B\<close> at the end of the example document, and what
  the calls of \<^verbatim>\<open>applyAllChanges\<close> read from outside.\<close>

definition insertA :: PendingChange where
  "insertA = exChange ''doc-1'' Insert ''at the end'' ''A''"

definition insertB :: PendingChange where
  "insertB = (exChange ''doc-1'' Insert ''at the end'' ''B'')\<lparr>ch_id := ''change-7-1''\<rparr>"

definition exClock :: "nat \<Rightarrow> Env" where
  "exClock i = \<lparr>env_now = 1000 + i, env_newId = ''doc-1000-k3x9qa''\<rparr>"




section \<open>Resolving a change\<close>

lemma find_markApplied:
  "find (\<lambda>c. ch_id c = cid) cs = Some c \<Longrightarrow>
   find (\<lambda>c. ch_id c = cid) (markApplied cid cs) = Some (c\<lparr>ch_status := Applied\<rparr>)"
  by (induction cs) (auto simp: markApplied_def)


lemma pendingChanges_createDocument [simp]:
  "pendingChanges (createDocument env t c s) = pendingChanges s"
  by (simp add: createDocument_def Let_def)

lemma pendingChanges_deleteDocument [simp]:
  "pendingChanges (deleteDocument d s) = pendingChanges s"
  by (simp add: deleteDocument_def Let_def)

lemma pendingChanges_updateDocument [simp]:
  "pendingChanges (updateDocument t d c s) = pendingChanges s"
  by (simp add: updateDocument_def Let_def)

lemma pendingChanges_applyChange:
  "find (\<lambda>c. ch_id c = cid) (pendingChanges s) = Some c \<Longrightarrow> ch_status c = Pending \<Longrightarrow>
   pendingChanges (applyChange env cid s) = markApplied cid (pendingChanges s)"
  by (simp add: applyChange_def Let_def split: option.splits)

lemma applyChange_not_pending:
  "find (\<lambda>c. ch_id c = cid) (pendingChanges s) = Some c \<Longrightarrow> ch_status c \<noteq> Pending \<Longrightarrow>
   applyChange env cid s = s"
  by (simp add: applyChange_def)

lemma applyChange_unknown:
  "find (\<lambda>c. ch_id c = cid) (pendingChanges s) = None \<Longrightarrow> applyChange env cid s = s"
  by (simp add: applyChange_def)

text \<open>Applying twice is applying once: the second call finds the change applied.\<close>

lemma applyChange_twice:
  "applyChange env' cid (applyChange env cid s) = applyChange env cid s"
proof (cases "find (\<lambda>c. ch_id c = cid) (pendingChanges s)")
  case None
  then show ?thesis by (simp add: applyChange_unknown)
next
  case (Some c)
  show ?thesis
  proof (cases "ch_status c = Pending")
    case True
    have "pendingChanges (applyChange env cid s) = markApplied cid (pendingChanges s)"
      using Some True by (rule pendingChanges_applyChange)
    then have "find (\<lambda>c. ch_id c = cid) (pendingChanges (applyChange env cid s))
                 = Some (c\<lparr>ch_status := Applied\<rparr>)"
      using Some by (simp add: find_markApplied)
    then show ?thesis
      by (rule applyChange_not_pending) simp
  next
    case False
    with Some show ?thesis by (simp add: applyChange_not_pending)
  qed
qed

text \<open>Dismissing twice is dismissing once, and dismissing leaves every document alone.\<close>

lemma dismissChange_twice:
  "dismissChange cid (dismissChange cid s) = dismissChange cid s"
  by (simp add: dismissChange_def comp_def)

lemma documents_dismissChange:
  "documents (dismissChange cid s) = documents s"
  by (simp add: dismissChange_def)

text \<open>Applying a dismissed change does nothing.\<close>

lemma find_dismissed:
  "find (\<lambda>c. ch_id c = cid)
     (map (\<lambda>c. if ch_id c = cid then c\<lparr>ch_status := Dismissed\<rparr> else c) cs)
   = map_option (\<lambda>c. c\<lparr>ch_status := Dismissed\<rparr>) (find (\<lambda>c. ch_id c = cid) cs)"
  by (induction cs) simp_all

lemma applyChange_after_dismiss:
  "applyChange env cid (dismissChange cid s) = dismissChange cid s"
proof (cases "find (\<lambda>c. ch_id c = cid) (pendingChanges s)")
  case None
  then have "find (\<lambda>c. ch_id c = cid) (pendingChanges (dismissChange cid s)) = None"
    by (simp add: dismissChange_def find_dismissed)
  then show ?thesis by (rule applyChange_unknown)
next
  case (Some c)
  then have "find (\<lambda>c. ch_id c = cid) (pendingChanges (dismissChange cid s))
               = Some (c\<lparr>ch_status := Dismissed\<rparr>)"
    by (simp add: dismissChange_def find_dismissed)
  then show ?thesis
    by (rule applyChange_not_pending) simp
qed

text \<open>
  C1. The claim: a change moves from pending to applied or from pending to dismissed and
  never leaves a resolved state; applying or dismissing a resolved change does nothing.
  \<^verbatim>\<open>applyChange\<close> tests the status, \<^verbatim>\<open>dismissAllChanges\<close> tests it, \<^verbatim>\<open>dismissChange\<close> does not:
  dismissing the change that has just been applied turns its status from applied into
  dismissed. The theorem runs the store on that input.
\<close>

theorem dismissChange_overwrites_applied:
  "map ch_status (pendingChanges (applyChange exEnv ''change-7-0'' (exStore [appendA])))
     = [Applied]
   \<and> map ch_status
       (pendingChanges
          (dismissChange ''change-7-0'' (applyChange exEnv ''change-7-0'' (exStore [appendA]))))
     = [Dismissed]"
proof -
  have f: "find (\<lambda>c. ch_id c = ''change-7-0'') (pendingChanges (exStore [appendA])) = Some appendA"
    by (simp add: exStore_def appendA_def exChange_def)
  have p: "ch_status appendA = Pending"
    by (simp add: appendA_def exChange_def)
  have "pendingChanges (applyChange exEnv ''change-7-0'' (exStore [appendA]))
          = [appendA\<lparr>ch_status := Applied\<rparr>]"
    using pendingChanges_applyChange [OF f p, of exEnv]
    by (simp add: markApplied_def exStore_def appendA_def exChange_def)
  then show ?thesis
    by (simp add: dismissChange_def appendA_def exChange_def)
qed

section \<open>A change whose document is missing\<close>





section \<open>A change with the sentinel document id\<close>

lemma map_of_update_new:
  "map_of (AList.update k v al) k = Some v"
  by (simp add: update_conv')

lemma update_fresh:
  "k \<notin> fst ` set al \<Longrightarrow> AList.update k v al = al @ [(k, v)]"
  by (induction al) auto

lemma applyChange_sentinel:
  assumes "find (\<lambda>c. ch_id c = cid) (pendingChanges s) = Some c"
    and "ch_status c = Pending"
    and "ch_operation c = Create \<or> ch_documentId c = ''new''"
  shows "applyChange env cid s
           = (createDocument env (ch_target c) (ch_content c) s)
               \<lparr>pendingChanges := markApplied cid (pendingChanges s)\<rparr>"
  using assms by (simp add: applyChange_def Let_def)

lemma createDocument_new:
  "map_of (documents (createDocument env t c s)) (env_newId env)
     = Some \<lparr>doc_id = env_newId env, doc_path = ''/docs/'' @ slugify t @ ''.md'',
             doc_title = t, doc_content = res_body (parseFrontmatter c),
             doc_frontmatter = res_frontmatter (parseFrontmatter c),
             doc_frontmatterRaw = res_frontmatterRaw (parseFrontmatter c),
             doc_updatedAt = env_now env\<rparr>"
  by (simp add: createDocument_def Let_def map_of_update_new)

lemma createDocument_fresh:
  "env_newId env \<notin> fst ` set (documents s) \<Longrightarrow>
   documents (createDocument env t c s)
     = documents s @
       [(env_newId env,
         \<lparr>doc_id = env_newId env, doc_path = ''/docs/'' @ slugify t @ ''.md'',
          doc_title = t, doc_content = res_body (parseFrontmatter c),
          doc_frontmatter = res_frontmatter (parseFrontmatter c),
          doc_frontmatterRaw = res_frontmatterRaw (parseFrontmatter c),
          doc_updatedAt = env_now env\<rparr>)]"
  by (simp add: createDocument_def Let_def update_fresh)

lemma parseFrontmatter_plain:
  "\<not> startsWith c ''---'' \<Longrightarrow> res_body (parseFrontmatter c) = c"
  by (simp add: parseFrontmatter_def)

text \<open>
  C9. A pending change whose document id is the sentinel \<^verbatim>\<open>"new"\<close> is applied by
  \<^verbatim>\<open>createDocument(change.target, change.content)\<close>, whatever its operation is: the store
  afterwards is the one \<^verbatim>\<open>createDocument\<close> leaves, with the change marked applied. The new
  document has the title \<^verbatim>\<open>change.target\<close>; its content is the body that
  \<^verbatim>\<open>parseFrontmatter\<close> finds in \<^verbatim>\<open>change.content\<close>, which is \<^verbatim>\<open>change.content\<close> itself unless
  that starts with a frontmatter block. With a fresh identifier the documents of the store
  are the old ones followed by the new one: nothing is changed or deleted.
\<close>

theorem applyChange_sentinel_creates:
  assumes "find (\<lambda>c. ch_id c = cid) (pendingChanges s) = Some c"
    and "ch_status c = Pending"
    and "ch_documentId c = ''new''"
  shows "applyChange env cid s
           = (createDocument env (ch_target c) (ch_content c) s)
               \<lparr>pendingChanges := markApplied cid (pendingChanges s)\<rparr>
         \<and> map_option doc_title (map_of (documents (applyChange env cid s)) (env_newId env))
             = Some (ch_target c)
         \<and> map_option doc_content (map_of (documents (applyChange env cid s)) (env_newId env))
             = Some (res_body (parseFrontmatter (ch_content c)))
         \<and> (\<not> startsWith (ch_content c) ''---'' \<longrightarrow>
              map_option doc_content
                (map_of (documents (applyChange env cid s)) (env_newId env))
              = Some (ch_content c))
         \<and> (env_newId env \<notin> fst ` set (documents s) \<longrightarrow>
              take (length (documents s)) (documents (applyChange env cid s)) = documents s
              \<and> length (documents (applyChange env cid s)) = Suc (length (documents s)))"
proof -
  have a: "applyChange env cid s
           = (createDocument env (ch_target c) (ch_content c) s)
               \<lparr>pendingChanges := markApplied cid (pendingChanges s)\<rparr>"
    using assms by (simp add: applyChange_sentinel)
  have d: "documents (applyChange env cid s)
             = documents (createDocument env (ch_target c) (ch_content c) s)"
    by (simp add: a)
  have 1: "map_option doc_title (map_of (documents (applyChange env cid s)) (env_newId env))
             = Some (ch_target c)"
    by (simp add: d createDocument_new)
  have 2: "map_option doc_content (map_of (documents (applyChange env cid s)) (env_newId env))
             = Some (res_body (parseFrontmatter (ch_content c)))"
    by (simp add: d createDocument_new)
  have 3: "\<not> startsWith (ch_content c) ''---'' \<longrightarrow>
              map_option doc_content
                (map_of (documents (applyChange env cid s)) (env_newId env))
              = Some (ch_content c)"
    using 2 parseFrontmatter_plain [of "ch_content c"] by auto
  have 4: "env_newId env \<notin> fst ` set (documents s) \<longrightarrow>
              take (length (documents s)) (documents (applyChange env cid s)) = documents s
              \<and> length (documents (applyChange env cid s)) = Suc (length (documents s))"
    by (simp add: d createDocument_fresh)
  from a 1 2 3 4 show ?thesis by blast
qed

theorem applyChange_sentinel_creates_witness:
  "find (\<lambda>c. ch_id c = ''change-7-0'') (pendingChanges (exStore [sentinelDelete]))
     = Some sentinelDelete
   \<and> ch_status sentinelDelete = Pending
   \<and> ch_documentId sentinelDelete = ''new''
   \<and> ch_operation sentinelDelete = Delete
   \<and> map_option doc_title
        (map_of (documents (applyChange exEnv ''change-7-0'' (exStore [sentinelDelete])))
           ''doc-1000-k3x9qa'') = Some ''Plan''
   \<and> map_option doc_content
        (map_of (documents (applyChange exEnv ''change-7-0'' (exStore [sentinelDelete])))
           ''doc-1000-k3x9qa'') = Some ''<h1>Plan</h1>''
   \<and> length (documents (applyChange exEnv ''change-7-0'' (exStore [sentinelDelete]))) = 2"
proof -
  have h1: "find (\<lambda>c. ch_id c = ''change-7-0'') (pendingChanges (exStore [sentinelDelete]))
              = Some sentinelDelete"
    by (simp add: exStore_def sentinelDelete_def exChange_def)
  have h2: "ch_status sentinelDelete = Pending"
    by (simp add: sentinelDelete_def exChange_def)
  have h3: "ch_documentId sentinelDelete = ''new''"
    by (simp add: sentinelDelete_def exChange_def)
  have h4: "ch_operation sentinelDelete = Delete"
    by (simp add: sentinelDelete_def exChange_def)
  have t: "ch_target sentinelDelete = ''Plan''"
    by (simp add: sentinelDelete_def exChange_def)
  have c: "ch_content sentinelDelete = ''<h1>Plan</h1>''"
    by (simp add: sentinelDelete_def exChange_def)
  have n: "\<not> startsWith (ch_content sentinelDelete) ''---''"
    by (simp add: c)
  have i: "env_newId exEnv = ''doc-1000-k3x9qa''"
    by (simp add: exEnv_def)
  have f: "env_newId exEnv \<notin> fst ` set (documents (exStore [sentinelDelete]))"
    by (simp add: exEnv_def exStore_def)
  have l: "length (documents (exStore [sentinelDelete])) = 1"
    by (simp add: exStore_def)
  from applyChange_sentinel_creates [OF h1 h2 h3, of exEnv] n f
  have r1: "map_option doc_title
        (map_of (documents (applyChange exEnv ''change-7-0'' (exStore [sentinelDelete])))
           (env_newId exEnv)) = Some (ch_target sentinelDelete)"
    and r2: "map_option doc_content
        (map_of (documents (applyChange exEnv ''change-7-0'' (exStore [sentinelDelete])))
           (env_newId exEnv)) = Some (ch_content sentinelDelete)"
    and r3: "length (documents (applyChange exEnv ''change-7-0'' (exStore [sentinelDelete])))
           = Suc (length (documents (exStore [sentinelDelete])))"
    by blast+
  from r3 have r4:
    "length (documents (applyChange exEnv ''change-7-0'' (exStore [sentinelDelete]))) = 2"
    by (simp only: l)
  from h1 h2 h3 h4 r1 r2 r4 show ?thesis
    unfolding t c i by blast
qed

section \<open>Searching entities\<close>

lemma searchEntities_content:
  "set (searchEntities query rows)
     \<subseteq> {r \<in> set rows. likeMatch (''%'' @ query @ ''%'') (ent_name r)}
   \<and> sorted (map ent_name (searchEntities query rows))"
proof -
  let ?m = "filter (\<lambda>r. likeMatch (''%'' @ query @ ''%'') (ent_name r)) rows"
  have "set (take 20 (sort_key ent_name ?m)) \<subseteq> set (sort_key ent_name ?m)"
    by (rule set_take_subset)
  then have 1: "set (searchEntities query rows)
     \<subseteq> {r \<in> set rows. likeMatch (''%'' @ query @ ''%'') (ent_name r)}"
    by (auto simp: searchEntities_def)
  have "sorted (map ent_name (sort_key ent_name ?m))"
    by (rule sorted_sort_key)
  then have "sorted (take 20 (map ent_name (sort_key ent_name ?m)))"
    by (rule sorted_wrt_take)
  then have 2: "sorted (map ent_name (searchEntities query rows))"
    by (simp add: searchEntities_def take_map)
  from 1 2 show ?thesis by blast
qed

text \<open>
  C10. \<^verbatim>\<open>searchEntities\<close> returns at most 20 entities for every query and every table: it
  returns 20 as soon as 20 or more names match the pattern, and all the matching rows
  otherwise. What it returns are rows of the table whose names match, ordered by name.
\<close>

theorem searchEntities_limit:
  "length (searchEntities query rows) \<le> 20
   \<and> length (searchEntities query rows)
       = min 20 (length (filter (\<lambda>r. likeMatch (''%'' @ query @ ''%'') (ent_name r)) rows))
   \<and> set (searchEntities query rows)
       \<subseteq> {r \<in> set rows. likeMatch (''%'' @ query @ ''%'') (ent_name r)}
   \<and> sorted (map ent_name (searchEntities query rows))"
proof -
  have "length (searchEntities query rows)
       = min 20 (length (filter (\<lambda>r. likeMatch (''%'' @ query @ ''%'') (ent_name r)) rows))"
    by (simp add: searchEntities_def)
  moreover from this have "length (searchEntities query rows) \<le> 20"
    by simp
  ultimately show ?thesis
    using searchEntities_content [of query rows] by blast
qed

theorem searchEntities_limit_witness:
  "length (filter (\<lambda>r. likeMatch (''%'' @ ''an'' @ ''%'') (ent_name r))
             (replicate 21 (exEntity ''person-1'' ''Ana''))) = 21
   \<and> length (searchEntities ''an'' (replicate 21 (exEntity ''person-1'' ''Ana''))) = 20"
proof -
  have m: "likeMatch (''%'' @ ''an'' @ ''%'') (ent_name (exEntity ''person-1'' ''Ana''))"
    by (simp add: exEntity_def toLowerChar_def)
  then have f: "filter (\<lambda>r. likeMatch (''%'' @ ''an'' @ ''%'') (ent_name r))
             (replicate 21 (exEntity ''person-1'' ''Ana''))
           = replicate 21 (exEntity ''person-1'' ''Ana'')"
    by (simp only: filter_replicate if_True)
  from searchEntities_limit [of "''an''" "replicate 21 (exEntity ''person-1'' ''Ana'')"]
  show ?thesis
    by (simp only: f length_replicate) simp
qed

section \<open>Updating an entity\<close>

lemma find_map_by_id:
  assumes "\<And>r. ent_id (g r) = ent_id r"
  shows "find (\<lambda>r. ent_id r = ident) (map (\<lambda>r. if ent_id r = ident then g r else r) rows)
           = map_option g (find (\<lambda>r. ent_id r = ident) rows)"
  by (induction rows) (simp_all add: assms)

lemma updateEntity_found:
  assumes "getEntity ident rows = Some e"
  shows "\<exists>rows'. updateEntity t ident u rows = Inr rows'
           \<and> getEntity ident rows'
               = Some (e\<lparr>ent_name := (case upd_name u of Some n \<Rightarrow> n | None \<Rightarrow> ent_name e),
                         ent_properties := (case upd_properties u of
                                              Some ps \<Rightarrow> ps
                                            | None \<Rightarrow> ent_properties e),
                         ent_updated_at := t\<rparr>)"
proof -
  let ?g = "\<lambda>r. r\<lparr>ent_name := (case upd_name u of Some n \<Rightarrow> n | None \<Rightarrow> ent_name e),
                    ent_properties := (case upd_properties u of
                                         Some ps \<Rightarrow> ps
                                       | None \<Rightarrow> ent_properties e),
                    ent_updated_at := t\<rparr>"
  have u: "updateEntity t ident u rows
             = Inr (map (\<lambda>r. if ent_id r = ident then ?g r else r) rows)"
    using assms by (simp add: updateEntity_def Let_def)
  have "getEntity ident (map (\<lambda>r. if ent_id r = ident then ?g r else r) rows) = Some (?g e)"
    unfolding getEntity_def
    using assms find_map_by_id [of ?g ident rows] by (simp add: getEntity_def)
  with u show ?thesis by blast
qed

lemma updateEntity_missing:
  "getEntity ident rows = None \<Longrightarrow> updateEntity t ident u rows = Inl (EntityNotFound ident)"
  by (simp add: updateEntity_def)

lemma store_updateEntity_found:
  assumes "getEntity ident rows = Some e" and "map_of (entities st) ident = Some e'"
  shows "\<exists>rows' st'. store_updateEntity t t' ident u (rows, st) = Inr (rows', st')
           \<and> map_of (entities st') ident
               = Some (e'\<lparr>ent_name := (case upd_name u of Some n \<Rightarrow> n | None \<Rightarrow> ent_name e'),
                          ent_properties := (case upd_properties u of
                                               Some ps \<Rightarrow> ps
                                             | None \<Rightarrow> ent_properties e'),
                          ent_updated_at := t'\<rparr>)"
proof -
  from updateEntity_found [OF assms(1), of t u]
  obtain rows' where "updateEntity t ident u rows = Inr rows'"
    by blast
  then show ?thesis
    using assms(2)
    by (simp add: store_updateEntity_def spreadUpdates_def Let_def update_conv')
qed

text \<open>
  C5, as the claim states it: the properties given in the update are merged into the
  properties of the entity, and a key that the update does not name keeps its value. The
  entity below has the properties \<open>role\<close> and \<open>team\<close>; after an update that gives the
  properties \<open>role \<mapsto> 3\<close> the entity has no property \<open>team\<close>.
\<close>

theorem updateEntity_merge_counterexample:
  "ent_properties (exEntity ''person-1'' ''Ana'') ''team'' = Some 2
   \<and> updateEntity 20 ''person-1'' exUpdate [exEntity ''person-1'' ''Ana'']
       = Inr [(exEntity ''person-1'' ''Ana'')
                \<lparr>ent_name := ''Ana'', ent_properties := [''role'' \<mapsto> 3], ent_updated_at := 20\<rparr>]
   \<and> ent_properties
        ((exEntity ''person-1'' ''Ana'')
           \<lparr>ent_name := ''Ana'', ent_properties := [''role'' \<mapsto> 3], ent_updated_at := 20\<rparr>)
        ''team'' = None"
  by (simp add: updateEntity_def getEntity_def exEntity_def exUpdate_def)

text \<open>
  C5, amended. \<^verbatim>\<open>updateEntity\<close> replaces the properties of the entity by the properties
  given in the update, as a whole: a key of the old properties that the update does not
  name is gone afterwards. Without \<^verbatim>\<open>properties\<close> in the update the old properties stay. The
  name is replaced when the update gives one, \<^verbatim>\<open>updated_at\<close> is always set to the time of the
  call, and the other fields stay. This holds for the row of the table and for the entity
  cached by the store. For an id that is not in the table both functions fail with
  ``Entity not found''.
\<close>

theorem updateEntity_replaces_properties:
  "(getEntity ident rows = None \<longrightarrow>
      updateEntity t ident u rows = Inl (EntityNotFound ident)
      \<and> store_updateEntity t t' ident u (rows, st) = Inl (EntityNotFound ident))
   \<and> (getEntity ident rows = Some e \<longrightarrow>
        (\<exists>rows'. updateEntity t ident u rows = Inr rows'
           \<and> getEntity ident rows'
               = Some (e\<lparr>ent_name := (case upd_name u of Some n \<Rightarrow> n | None \<Rightarrow> ent_name e),
                         ent_properties := (case upd_properties u of
                                              Some ps \<Rightarrow> ps
                                            | None \<Rightarrow> ent_properties e),
                         ent_updated_at := t\<rparr>)))
   \<and> (getEntity ident rows = Some e \<and> map_of (entities st) ident = Some e' \<longrightarrow>
        (\<exists>rows' st'. store_updateEntity t t' ident u (rows, st) = Inr (rows', st')
           \<and> map_of (entities st') ident
               = Some (e'\<lparr>ent_name := (case upd_name u of Some n \<Rightarrow> n | None \<Rightarrow> ent_name e'),
                          ent_properties := (case upd_properties u of
                                               Some ps \<Rightarrow> ps
                                             | None \<Rightarrow> ent_properties e'),
                          ent_updated_at := t'\<rparr>)))"
proof -
  have 1: "getEntity ident rows = None \<longrightarrow>
      updateEntity t ident u rows = Inl (EntityNotFound ident)
      \<and> store_updateEntity t t' ident u (rows, st) = Inl (EntityNotFound ident)"
    by (simp add: updateEntity_missing store_updateEntity_def)
  show ?thesis
    using 1 updateEntity_found [of ident rows e t u]
      store_updateEntity_found [of ident rows e st e' t t' u]
    by blast
qed

theorem updateEntity_replaces_properties_witness:
  "getEntity ''person-1'' [exEntity ''person-1'' ''Ana''] = Some (exEntity ''person-1'' ''Ana'')
   \<and> map_of (entities exEntityStore) ''person-1'' = Some (exEntity ''person-1'' ''Ana'')
   \<and> getEntity ''person-9'' [exEntity ''person-1'' ''Ana''] = None
   \<and> updateEntity 20 ''person-9'' exUpdate [exEntity ''person-1'' ''Ana'']
       = Inl (EntityNotFound ''person-9'')
   \<and> (\<exists>rows'. updateEntity 20 ''person-1'' exUpdate [exEntity ''person-1'' ''Ana''] = Inr rows'
         \<and> map_option ent_properties (getEntity ''person-1'' rows') = Some [''role'' \<mapsto> 3]
         \<and> map_option ent_updated_at (getEntity ''person-1'' rows') = Some 20
         \<and> map_option ent_name (getEntity ''person-1'' rows') = Some ''Ana'')
   \<and> (\<exists>rows' st'. store_updateEntity 20 21 ''person-1'' exUpdate
                      ([exEntity ''person-1'' ''Ana''], exEntityStore) = Inr (rows', st')
         \<and> map_option ent_properties (map_of (entities st') ''person-1'') = Some [''role'' \<mapsto> 3]
         \<and> map_option ent_updated_at (map_of (entities st') ''person-1'') = Some 21)"
proof -
  let ?rows = "[exEntity ''person-1'' ''Ana'']"
  have h1: "getEntity ''person-1'' ?rows = Some (exEntity ''person-1'' ''Ana'')"
    by (simp add: getEntity_def exEntity_def)
  have h2: "map_of (entities exEntityStore) ''person-1'' = Some (exEntity ''person-1'' ''Ana'')"
    by (simp add: exEntityStore_def)
  have h3: "getEntity ''person-9'' ?rows = None"
    by (simp add: getEntity_def exEntity_def)
  have u1: "upd_name exUpdate = None" and u2: "upd_properties exUpdate = Some [''role'' \<mapsto> 3]"
    by (simp_all add: exUpdate_def)
  have n: "ent_name (exEntity ''person-1'' ''Ana'') = ''Ana''"
    by (simp add: exEntity_def)
  note a = updateEntity_replaces_properties
    [of "''person-1''" ?rows 20 exUpdate 21 exEntityStore "exEntity ''person-1'' ''Ana''"
        "exEntity ''person-1'' ''Ana''"]
  note b = updateEntity_replaces_properties
    [of "''person-9''" ?rows 20 exUpdate 21 exEntityStore "exEntity ''person-1'' ''Ana''"
        "exEntity ''person-1'' ''Ana''"]
  from b h3 have r0: "updateEntity 20 ''person-9'' exUpdate ?rows = Inl (EntityNotFound ''person-9'')"
    by blast
  from a h1 obtain rows' where r1: "updateEntity 20 ''person-1'' exUpdate ?rows = Inr rows'"
    and r2: "getEntity ''person-1'' rows'
               = Some ((exEntity ''person-1'' ''Ana'')
                        \<lparr>ent_name := (case upd_name exUpdate of Some n \<Rightarrow> n
                                       | None \<Rightarrow> ent_name (exEntity ''person-1'' ''Ana'')),
                         ent_properties := (case upd_properties exUpdate of
                                              Some ps \<Rightarrow> ps
                                            | None \<Rightarrow> ent_properties (exEntity ''person-1'' ''Ana'')),
                         ent_updated_at := 20\<rparr>)"
    by blast
  from a h1 h2 obtain rows'' st' where
    s1: "store_updateEntity 20 21 ''person-1'' exUpdate (?rows, exEntityStore) = Inr (rows'', st')"
    and s2: "map_of (entities st') ''person-1''
               = Some ((exEntity ''person-1'' ''Ana'')
                        \<lparr>ent_name := (case upd_name exUpdate of Some n \<Rightarrow> n
                                       | None \<Rightarrow> ent_name (exEntity ''person-1'' ''Ana'')),
                         ent_properties := (case upd_properties exUpdate of
                                              Some ps \<Rightarrow> ps
                                            | None \<Rightarrow> ent_properties (exEntity ''person-1'' ''Ana'')),
                         ent_updated_at := 21\<rparr>)"
    by blast
  have p1: "map_option ent_properties (getEntity ''person-1'' rows') = Some [''role'' \<mapsto> 3]"
    and p2: "map_option ent_updated_at (getEntity ''person-1'' rows') = Some 20"
    and p3: "map_option ent_name (getEntity ''person-1'' rows') = Some ''Ana''"
    by (simp_all add: r2 u1 u2 n)
  have q1: "map_option ent_properties (map_of (entities st') ''person-1'') = Some [''role'' \<mapsto> 3]"
    and q2: "map_option ent_updated_at (map_of (entities st') ''person-1'') = Some 21"
    by (simp_all add: s2 u1 u2)
  from h1 h2 h3 r0 r1 p1 p2 p3 s1 q1 q2 show ?thesis by blast
qed

section \<open>Facts about the string methods and the heading loop\<close>

lemma startsWith_take: "startsWith s t \<longleftrightarrow> take (length t) s = t"
  by (induction s t rule: startsWith.induct) auto



lemma indexOf_None:
  "indexOf s t = None \<Longrightarrow> \<not> startsWith (drop j s) t"
proof (induction s arbitrary: j)
  case Nil
  then show ?case by (cases t) (simp_all split: if_splits)
next
  case (Cons c s)
  then show ?case
    by (cases j) (auto split: if_splits)
qed
















lemma toLowerCase_length [simp]: "length (toLowerCase s) = length s"
  by (simp add: toLowerCase_def)







section \<open>Replacing a section\<close>



section \<open>The locator without a match\<close>




section \<open>Facts about the frontmatter match\<close>

text \<open>Where a match ends: behind a hyphen, or behind white space that follows a hyphen or
  white space.\<close>

definition endsMatch :: "string \<Rightarrow> nat \<Rightarrow> bool" where
  "endsMatch s e \<longleftrightarrow>
     2 \<le> e \<and> e \<le> length s
     \<and> (s ! (e - 1) = CHR ''-''
          \<or> (isSpace (s ! (e - 1)) \<and> (s ! (e - 2) = CHR ''-'' \<or> isSpace (s ! (e - 2)))))"

lemma endsMatch_drop:
  assumes "endsMatch (drop k s) e"
  shows "endsMatch s (e + k)"
proof -
  from assms have e: "2 \<le> e" "e \<le> length s - k"
    by (simp_all add: endsMatch_def)
  then have k: "k \<le> length s" and b: "e + k \<le> length s"
    by arith+
  from e have i1: "drop k s ! (e - 1) = s ! (e + k - 1)"
    and i2: "drop k s ! (e - 2) = s ! (e + k - 2)"
    using k by (simp_all add: add.commute)
  from assms e b show ?thesis
    unfolding endsMatch_def i1 i2 by simp
qed

lemma startsWith_append: "startsWith s t \<longleftrightarrow> (\<exists>r. s = t @ r)"
  by (induction s t rule: startsWith.induct) auto

lemma closesAt_Some:
  assumes "closesAt s = Some n"
  shows "4 \<le> n \<and> n \<le> length s \<and> s ! (n - 1) = CHR ''-'' \<and> (hd s = LF \<or> hd s = CR)"
proof (cases "startsWith s [CR, LF, CHR ''-'', CHR ''-'', CHR ''-'']")
  case True
  then obtain r where "s = [CR, LF, CHR ''-'', CHR ''-'', CHR ''-''] @ r"
    by (auto simp: startsWith_append)
  moreover from True assms have "n = 5"
    by (simp add: closesAt_def)
  ultimately show ?thesis by simp
next
  case False
  with assms have t: "startsWith s [LF, CHR ''-'', CHR ''-'', CHR ''-'']" and n: "n = 4"
    by (simp_all add: closesAt_def split: if_splits)
  from t obtain r where "s = [LF, CHR ''-'', CHR ''-'', CHR ''-''] @ r"
    by (auto simp: startsWith_append)
  with n show ?thesis by simp
qed

lemma takeWhile_all_space:
  "i < length (takeWhile isSpace s) \<Longrightarrow> isSpace (s ! i)"
  using nth_mem [of i "takeWhile isSpace s"] set_takeWhileD [of "takeWhile isSpace s ! i" isSpace s]
  by (simp add: takeWhile_nth)

lemma closed_endsMatch:
  assumes "closesAt s = Some n"
  shows "endsMatch s (n + length (takeWhile isSpace (drop n s)))"
proof -
  let ?w = "length (takeWhile isSpace (drop n s))"
  from closesAt_Some [OF assms] have n: "4 \<le> n" "n \<le> length s" and d: "s ! (n - 1) = CHR ''-''"
    by simp_all
  have w: "?w \<le> length s - n"
    using length_takeWhile_le [of isSpace "drop n s"] by simp
  have sp: "isSpace (s ! (n + i))" if "i < ?w" for i
    using takeWhile_all_space [OF that] n(2) by simp
  show ?thesis
  proof (cases "?w")
    case 0
    with n d show ?thesis by (simp add: endsMatch_def)
  next
    case (Suc w')
    have a: "isSpace (s ! (n + ?w - 1))"
      using sp [of w'] Suc by simp
    have b: "s ! (n + ?w - 2) = CHR ''-'' \<or> isSpace (s ! (n + ?w - 2))"
    proof (cases w')
      case 0
      with Suc d show ?thesis by simp
    next
      case (Suc w'')
      with \<open>?w = Suc w'\<close> sp [of w''] show ?thesis by simp
    qed
    from a b n w show ?thesis
      by (simp add: endsMatch_def)
  qed
qed

lemma endsMatch_Cons: "endsMatch s e \<Longrightarrow> endsMatch (c # s) (Suc e)"
  using endsMatch_drop [of 1 "c # s" e] by simp

lemma lazyBody_endsMatch:
  "lazyBody s = Some (raw, m) \<Longrightarrow> endsMatch s m"
proof (induction s arbitrary: raw m)
  case Nil
  then show ?case by simp
next
  case (Cons c s)
  show ?case
  proof (cases "closesAt (c # s)")
    case (Some n)
    with Cons.prems closed_endsMatch [OF Some] show ?thesis by simp
  next
    case None
    with Cons.prems obtain raw' m' where "lazyBody s = Some (raw', m')" and "m = Suc m'"
      by (auto split: option.splits)
    with Cons.IH show ?thesis by (simp add: endsMatch_Cons)
  qed
qed

lemma afterSpaces_endsMatch:
  assumes "afterSpaces s = Some (raw, m)"
  shows "endsMatch s m"
proof (cases "startsWith s [CR, LF]")
  case True
  with assms obtain m' where "lazyBody (drop 2 s) = Some (raw, m')" and "m = m' + 2"
    by (auto simp: afterSpaces_def)
  with lazyBody_endsMatch endsMatch_drop show ?thesis by blast
next
  case False
  with assms obtain m' where "lazyBody (drop 1 s) = Some (raw, m')" and "m = m' + 1"
    by (auto simp: afterSpaces_def split: if_splits)
  with lazyBody_endsMatch endsMatch_drop show ?thesis by blast
qed

lemma openSpaces_endsMatch:
  "openSpaces s k = Some (raw, m) \<Longrightarrow> endsMatch s m"
proof (induction k)
  case 0
  then show ?case by (simp add: afterSpaces_endsMatch)
next
  case (Suc k)
  show ?case
  proof (cases "afterSpaces (drop (Suc k) s)")
    case None
    with Suc show ?thesis by simp
  next
    case (Some x)
    obtain raw' m' where x: "x = (raw', m')" by (cases x)
    with Some Suc.prems have "m = m' + Suc k"
      by simp
    with afterSpaces_endsMatch [OF Some [unfolded x]] endsMatch_drop show ?thesis
      by blast
  qed
qed

lemma matchFrontmatter_endsMatch:
  assumes "matchFrontmatter x = Some (raw, e)"
  shows "endsMatch x e"
proof -
  from assms obtain m where
    "openSpaces (drop 3 x) (length (takeWhile isSpace (drop 3 x))) = Some (raw, m)"
    and "e = m + 3"
    by (auto simp: matchFrontmatter_def split: if_splits)
  with openSpaces_endsMatch endsMatch_drop show ?thesis by blast
qed
section \<open>Two insertions at the end\<close>

lemma match_before_solid_tail:
  assumes "matchFrontmatter (y @ t) = Some (raw, e)"
    and "\<forall>ch \<in> set t. ch \<noteq> CHR ''-'' \<and> \<not> isSpace ch"
  shows "e \<le> length y"
proof (rule ccontr)
  assume "\<not> e \<le> length y"
  then have g: "length y < e" by simp
  from matchFrontmatter_endsMatch [OF assms(1)]
  have b: "e \<le> length y + length t"
    and sh: "(y @ t) ! (e - 1) = CHR ''-'' \<or> isSpace ((y @ t) ! (e - 1))"
    by (auto simp: endsMatch_def)
  from g b have "(y @ t) ! (e - 1) = t ! (e - 1 - length y)" and "e - 1 - length y < length t"
    by (auto simp: nth_append)
  with assms(2) sh show False
    by (metis nth_mem)
qed

lemma match_before_two_lines:
  assumes "matchFrontmatter (y @ a @ [LF] @ b) = Some (raw, e)"
    and "a \<noteq> []"
    and "\<forall>ch \<in> set a. ch \<noteq> CHR ''-'' \<and> \<not> isSpace ch"
    and "\<forall>ch \<in> set b. ch \<noteq> CHR ''-'' \<and> \<not> isSpace ch"
  shows "e \<le> length y"
proof (rule ccontr)
  let ?x = "y @ a @ [LF] @ b"
  let ?p = "length y + length a"
  assume "\<not> e \<le> length y"
  then have g: "length y < e" by simp
  from matchFrontmatter_endsMatch [OF assms(1)]
  have b: "e \<le> Suc (?p + length b)" and e2: "2 \<le> e"
    and sh: "?x ! (e - 1) = CHR ''-''
             \<or> (isSpace (?x ! (e - 1)) \<and> (?x ! (e - 2) = CHR ''-'' \<or> isSpace (?x ! (e - 2))))"
    by (simp_all add: endsMatch_def)
  have x: "?x = (y @ a) @ LF # b" by simp
  have ina: "?x ! i \<noteq> CHR ''-'' \<and> \<not> isSpace (?x ! i)"
    if "length y \<le> i" "i < ?p" for i
  proof -
    from that have l: "i - length y < length a" by arith
    from that l have "?x ! i = a ! (i - length y)"
      unfolding x by (simp add: nth_append)
    with assms(3) nth_mem [OF l] show ?thesis by simp
  qed
  have inb: "?x ! i \<noteq> CHR ''-'' \<and> \<not> isSpace (?x ! i)"
    if "?p < i" "i \<le> ?p + length b" for i
  proof -
    define k where "k = i - Suc ?p"
    from that have k: "i = Suc (?p + k)" and l: "k < length b"
      unfolding k_def by arith+
    have "?x ! i = b ! k"
      unfolding x k by (simp add: nth_append)
    with assms(4) nth_mem [OF l] show ?thesis by simp
  qed
  have atp: "?x ! ?p = LF"
    unfolding x by (simp add: nth_append)
  consider "e - 1 < ?p" | "e - 1 = ?p" | "?p < e - 1"
    by arith
  then show False
  proof cases
    case 1
    from g have "length y \<le> e - 1" by simp
    from ina [OF this 1] sh show False by blast
  next
    case 2
    from assms(2) have "0 < length a" by simp
    with 2 have "length y \<le> e - 2" "e - 2 < ?p"
      by arith+
    from ina [OF this] have n2: "?x ! (e - 2) \<noteq> CHR ''-''" "\<not> isSpace (?x ! (e - 2))"
      by simp_all
    from 2 atp have "?x ! (e - 1) = LF"
      by simp
    then have "?x ! (e - 1) \<noteq> CHR ''-''"
      by (simp add: LF_def)
    with sh n2 show False
      by blast
  next
    case 3
    from b e2 have "e - 1 \<le> ?p + length b" by arith
    from inb [OF 3 this] sh show False by blast
  qed
qed

lemma storedBody_drop:
  "\<exists>e. (if res_frontmatterRaw (parseFrontmatter x) \<noteq> None
         then res_body (parseFrontmatter x) else x) = drop e x
        \<and> (e = 0 \<or> (\<exists>raw. matchFrontmatter x = Some (raw, e)))"
proof (cases "startsWith x ''---''")
  case False
  then have "(if res_frontmatterRaw (parseFrontmatter x) \<noteq> None
         then res_body (parseFrontmatter x) else x) = drop 0 x"
    by (simp add: parseFrontmatter_def)
  then show ?thesis by blast
next
  case True
  show ?thesis
  proof (cases "matchFrontmatter x")
    case None
    with True have "(if res_frontmatterRaw (parseFrontmatter x) \<noteq> None
         then res_body (parseFrontmatter x) else x) = drop 0 x"
      by (simp add: parseFrontmatter_def)
    then show ?thesis by blast
  next
    case (Some p)
    obtain raw e where p: "p = (raw, e)" by (cases p)
    with Some True have "(if res_frontmatterRaw (parseFrontmatter x) \<noteq> None
         then res_body (parseFrontmatter x) else x) = drop e x"
      by (simp add: parseFrontmatter_def)
    with Some p show ?thesis by blast
  qed
qed

lemma updateDocument_content:
  assumes "map_of (documents s) d = Some doc"
  shows "\<exists>doc' e. map_of (documents (updateDocument t d x s)) d = Some doc'
           \<and> doc_content doc' = drop e x
           \<and> (e = 0 \<or> (\<exists>raw. matchFrontmatter x = Some (raw, e)))"
proof -
  from assms have "\<exists>doc'. map_of (documents (updateDocument t d x s)) d = Some doc'
      \<and> doc_content doc' = (if res_frontmatterRaw (parseFrontmatter x) \<noteq> None
                             then res_body (parseFrontmatter x) else x)"
    by (simp add: updateDocument_def Let_def update_conv')
  with storedBody_drop [of x] show ?thesis by metis
qed

lemma at_the_end:
  "findInsertionPoint x ''at the end'' = length x"
proof -
  have "\<not> includesStr (toLowerCase ''at the end'') ''after''"
    and "\<not> includesStr (toLowerCase ''at the end'') ''before''"
    and "includesStr (toLowerCase ''at the end'') ''end''"
    by code_simp+
  then show ?thesis
    by (simp add: findInsertionPoint_def afterRule_def beforeRule_def Let_def)
qed

lemma insert_at_the_end:
  assumes "ch_operation c = Insert" and "ch_target c = ''at the end''"
  shows "applyChangeToContent x c = x @ [LF] @ ch_content c"
  using assms by (simp add: applyChangeToContent_def at_the_end substring_def)

lemma applyChange_insert:
  assumes "find (\<lambda>c. ch_id c = cid) (pendingChanges s) = Some c"
    and "ch_status c = Pending"
    and "ch_operation c = Insert" and "ch_target c = ''at the end''"
    and "ch_documentId c \<noteq> ''new''"
    and "map_of (documents s) (ch_documentId c) = Some doc"
  shows "applyChange env cid s
           = (updateDocument (env_now env) (ch_documentId c)
                (doc_content doc @ [LF] @ ch_content c) s)
               \<lparr>pendingChanges := markApplied cid (pendingChanges s)\<rparr>"
  using assms by (simp add: applyChange_def Let_def insert_at_the_end)
lemma drop_append_le: "n \<le> length xs \<Longrightarrow> drop n (xs @ ys) = drop n xs @ ys"
  by simp

text \<open>The changes that \<^verbatim>\<open>setPendingChanges\<close> puts into the queue are pending and have
  different ids.\<close>

lemma map_snd_zip_upt:
  "map (\<lambda>x. g (snd x)) (zip cs [0 ..< length cs]) = map g [0 ..< length cs]"
proof -
  have "map (\<lambda>x. g (snd x)) (zip cs [0 ..< length cs])
          = map g (map snd (zip cs [0 ..< length cs]))"
    by (simp only: map_map comp_def)
  also have "map snd (zip cs [0 ..< length cs]) = [0 ..< length cs]"
    by (simp add: map_snd_zip)
  finally show ?thesis .
qed

lemma setPendingChanges_ids:
  "map ch_id (pendingChanges (setPendingChanges t cs s))
     = map (\<lambda>i. ''change-'' @ showNat t @ ''-'' @ showNat i) [0 ..< length cs]"
  using map_snd_zip_upt [of "\<lambda>i. ''change-'' @ showNat t @ ''-'' @ showNat i" cs]
  by (simp add: setPendingChanges_def case_prod_beta comp_def)

lemma setPendingChanges_distinct:
  "distinct (map ch_id (pendingChanges (setPendingChanges t cs s)))"
  unfolding setPendingChanges_ids
  by (simp add: distinct_map inj_on_def showNat_inj)

lemma setPendingChanges_pending:
  "c \<in> set (pendingChanges (setPendingChanges t cs s)) \<Longrightarrow> ch_status c = Pending"
  by (auto simp: setPendingChanges_def)

lemma applyAllChanges_two:
  assumes "pendingChanges s = [cA, cB]" and "ch_status cA = Pending" and "ch_status cB = Pending"
  shows "applyAllChanges clock s
           = applyChange (clock 1) (ch_id cB) (applyChange (clock 0) (ch_id cA) s)"
  using assms by (simp add: applyAllChanges_def)

text \<open>
  C2. The queue holds two pending insert changes for the same document, both with the
  target \<^verbatim>\<open>at the end\<close>, the first with the content \<^verbatim>\<open>A\<close> and the second with the content \<^verbatim>\<open>B\<close>
  (their ids differ, as the ids that \<^verbatim>\<open>setPendingChanges\<close> gives). After
  \<^verbatim>\<open>applyAllChanges\<close> the content of the document ends with \<^verbatim>\<open>A\<close>, a line feed and \<^verbatim>\<open>B\<close>, for
  every content the document had before, and both changes are applied.
\<close>

theorem applyAllChanges_order:
  assumes "pendingChanges s = [cA, cB]"
    and "ch_id cA \<noteq> ch_id cB"
    and "ch_status cA = Pending" and "ch_status cB = Pending"
    and "ch_operation cA = Insert" and "ch_operation cB = Insert"
    and "ch_target cA = ''at the end''" and "ch_target cB = ''at the end''"
    and "ch_documentId cA = d" and "ch_documentId cB = d" and "d \<noteq> ''new''"
    and "ch_content cA = ''A''" and "ch_content cB = ''B''"
    and "map_of (documents s) d = Some doc"
  shows "(\<exists>doc' pre. map_of (documents (applyAllChanges clock s)) d = Some doc'
            \<and> doc_content doc' = pre @ ''A'' @ [LF] @ ''B'')
         \<and> map ch_status (pendingChanges (applyAllChanges clock s)) = [Applied, Applied]"
proof -
  let ?idA = "ch_id cA" and ?idB = "ch_id cB"
  let ?x1 = "doc_content doc @ [LF] @ ''A''"
  let ?u1 = "updateDocument (env_now (clock 0)) d ?x1 s"
  let ?s1 = "applyChange (clock 0) ?idA s"
  have solidA: "\<forall>ch \<in> set ''A''. ch \<noteq> CHR ''-'' \<and> \<not> isSpace ch"
    and solidB: "\<forall>ch \<in> set ''B''. ch \<noteq> CHR ''-'' \<and> \<not> isSpace ch"
    by (simp_all add: isSpace_def)
  have fA: "find (\<lambda>c. ch_id c = ?idA) (pendingChanges s) = Some cA"
    using assms(1) by simp
  have s1: "?s1 = ?u1\<lparr>pendingChanges := markApplied ?idA (pendingChanges s)\<rparr>"
    using applyChange_insert [OF fA assms(3) assms(5) assms(7), of doc "clock 0"] assms
    by simp
  have q1: "pendingChanges ?s1 = [cA\<lparr>ch_status := Applied\<rparr>, cB]"
    using assms(1,2) by (simp add: s1 markApplied_def)
  from updateDocument_content [OF assms(14), of "env_now (clock 0)" ?x1]
  obtain doc1 e1 where d1: "map_of (documents ?u1) d = Some doc1"
    and c1: "doc_content doc1 = drop e1 ?x1"
    and m1: "e1 = 0 \<or> (\<exists>raw. matchFrontmatter ?x1 = Some (raw, e1))"
    by blast
  have "e1 \<le> length (doc_content doc @ [LF])"
  proof (cases "e1 = 0")
    case True
    then show ?thesis by simp
  next
    case False
    with m1 obtain raw where "matchFrontmatter ((doc_content doc @ [LF]) @ ''A'') = Some (raw, e1)"
      by auto
    from match_before_solid_tail [OF this solidA] show ?thesis .
  qed
  from drop_append_le [OF this, of "''A''"] c1
  have c1a: "doc_content doc1 = drop e1 (doc_content doc @ [LF]) @ ''A''"
    by simp
  let ?y1 = "drop e1 (doc_content doc @ [LF])"
  have d1s: "map_of (documents ?s1) d = Some doc1"
    using d1 by (simp add: s1)
  let ?x2 = "doc_content doc1 @ [LF] @ ''B''"
  let ?u2 = "updateDocument (env_now (clock 1)) d ?x2 ?s1"
  let ?s2 = "applyChange (clock 1) ?idB ?s1"
  have fB: "find (\<lambda>c. ch_id c = ?idB) (pendingChanges ?s1) = Some cB"
    using assms(2) by (simp add: q1)
  have s2: "?s2 = ?u2\<lparr>pendingChanges := markApplied ?idB (pendingChanges ?s1)\<rparr>"
    using applyChange_insert [OF fB assms(4) assms(6) assms(8), of doc1 "clock 1"] assms(10,11,13) d1s
    by simp
  have q2: "pendingChanges ?s2 = [cA\<lparr>ch_status := Applied\<rparr>, cB\<lparr>ch_status := Applied\<rparr>]"
    using assms(2) unfolding s2 q1 by (simp add: markApplied_def)
  from updateDocument_content [OF d1s, of "env_now (clock 1)" ?x2]
  obtain doc2 e2 where d2: "map_of (documents ?u2) d = Some doc2"
    and c2: "doc_content doc2 = drop e2 ?x2"
    and m2: "e2 = 0 \<or> (\<exists>raw. matchFrontmatter ?x2 = Some (raw, e2))"
    by blast
  have x2: "?x2 = ?y1 @ ''A'' @ [LF] @ ''B''"
    by (simp add: c1a)
  have "e2 \<le> length ?y1"
  proof (cases "e2 = 0")
    case True
    then show ?thesis by simp
  next
    case False
    with m2 obtain raw where "matchFrontmatter (?y1 @ ''A'' @ [LF] @ ''B'') = Some (raw, e2)"
      unfolding x2 by auto
    from match_before_two_lines [OF this _ solidA solidB] show ?thesis by simp
  qed
  from drop_append_le [OF this, of "''A'' @ [LF] @ ''B''"] c2
  have "doc_content doc2 = drop e2 ?y1 @ ''A'' @ [LF] @ ''B''"
    unfolding x2 by simp
  moreover have "map_of (documents ?s2) d = Some doc2"
    using d2 by (subst s2) simp
  moreover have "applyAllChanges clock s = ?s2"
    using assms(1,3,4) by (rule applyAllChanges_two)
  ultimately show ?thesis
    using q2 by auto
qed

theorem applyAllChanges_order_witness:
  "pendingChanges (exStore [insertA, insertB]) = [insertA, insertB]
   \<and> ch_id insertA \<noteq> ch_id insertB
   \<and> ch_status insertA = Pending \<and> ch_status insertB = Pending
   \<and> ch_operation insertA = Insert \<and> ch_operation insertB = Insert
   \<and> ch_target insertA = ''at the end'' \<and> ch_target insertB = ''at the end''
   \<and> ch_documentId insertA = ''doc-1'' \<and> ch_documentId insertB = ''doc-1''
   \<and> ''doc-1'' \<noteq> ''new''
   \<and> ch_content insertA = ''A'' \<and> ch_content insertB = ''B''
   \<and> map_of (documents (exStore [insertA, insertB])) ''doc-1'' = Some exDoc
   \<and> (\<exists>doc' pre.
         map_of (documents (applyAllChanges exClock (exStore [insertA, insertB]))) ''doc-1''
           = Some doc'
         \<and> doc_content doc' = pre @ ''A'' @ [LF] @ ''B'')
   \<and> map_option doc_content
        (map_of (documents (applyAllChanges exClock (exStore [insertA, insertB]))) ''doc-1'')
       = Some (''<h1>Notes</h1>'' @ [LF] @ ''A'' @ [LF] @ ''B'')
   \<and> map ch_status (pendingChanges (applyAllChanges exClock (exStore [insertA, insertB])))
       = [Applied, Applied]"
proof -
  have h1: "pendingChanges (exStore [insertA, insertB]) = [insertA, insertB]"
    by (simp add: exStore_def)
  have h2: "ch_id insertA \<noteq> ch_id insertB"
    and h3: "ch_status insertA = Pending" and h4: "ch_status insertB = Pending"
    and h5: "ch_operation insertA = Insert" and h6: "ch_operation insertB = Insert"
    and h7: "ch_target insertA = ''at the end''" and h8: "ch_target insertB = ''at the end''"
    and h9: "ch_documentId insertA = ''doc-1''" and h10: "ch_documentId insertB = ''doc-1''"
    and h12: "ch_content insertA = ''A''" and h13: "ch_content insertB = ''B''"
    by (simp_all add: insertA_def insertB_def exChange_def)
  have h11: "''doc-1'' \<noteq> ''new''"
    by simp
  have h14: "map_of (documents (exStore [insertA, insertB])) ''doc-1'' = Some exDoc"
    by (simp add: exStore_def)
  have ev: "map_option doc_content
        (map_of (documents (applyAllChanges exClock (exStore [insertA, insertB]))) ''doc-1'')
       = Some (''<h1>Notes</h1>'' @ [LF] @ ''A'' @ [LF] @ ''B'')"
    by code_simp
  from applyAllChanges_order [OF h1 h2 h3 h4 h5 h6 h7 h8 h9 h10 h11 h12 h13 h14, of exClock]
    h1 h2 h3 h4 h5 h6 h7 h8 h9 h10 h11 h12 h13 h14 ev
  show ?thesis by blast
qed

section \<open>The frontmatter round trip\<close>












section \<open>Creating a document\<close>


















lemma nextTitle_used:
  "ttl \<in> set ex \<Longrightarrow> nextTitle ex ttl suffix = nextTitle ex (''Untitled '' @ showNat suffix) (suffix + 1)"
  by (subst nextTitle.simps) simp

lemma showNat_2: "showNat 2 = ''2''"
  by code_simp



end
